theory Spec2Isabelle
  imports Complex_Main "HOL-Library.FSet" "HOL-Library.Sublist" "HOL-Library.Multiset"
begin

section \<open>JavaScript array primitives used by the handlers\<close>

text \<open>
  \<^verbatim>\<open>Array.prototype.findIndex\<close>: the index of the first element satisfying the
  predicate, or \<open>-1\<close> when there is none.
\<close>

fun findIndex :: "('a \<Rightarrow> bool) \<Rightarrow> 'a list \<Rightarrow> int" where
  "findIndex P [] = -1"
| "findIndex P (x # xs) =
     (if P x then 0 else (let r = findIndex P xs in if r < 0 then -1 else r + 1))"

text \<open>
  \<^verbatim>\<open>Array.prototype.splice(start, deleteCount, ...items)\<close>: a negative start counts
  from the end and is clamped at 0, a start beyond the length is clamped to the
  length, and the delete count is clamped to what is left. The result is the pair of
  the removed elements and the array after the call.
\<close>

definition spliceStart :: "int \<Rightarrow> 'a list \<Rightarrow> nat" where
  "spliceStart start xs =
     (let n = int (length xs)
      in nat (if start < 0 then max (n + start) 0 else min start n))"

definition splice :: "int \<Rightarrow> nat \<Rightarrow> 'a list \<Rightarrow> 'a list \<Rightarrow> 'a list \<times> 'a list" where
  "splice start deleteCount items xs =
     (let s = spliceStart start xs;
          d = min deleteCount (length xs - s)
      in (take d (drop s xs), take s xs @ items @ drop (s + d) xs))"

text \<open>An array read \<^verbatim>\<open>xs[i]\<close>: \<^verbatim>\<open>undefined\<close> (here \<open>None\<close>) out of range.\<close>

definition elemAt :: "'a list \<Rightarrow> int \<Rightarrow> 'a option" where
  "elemAt xs i = (if 0 \<le> i \<and> i < int (length xs) then Some (xs ! nat i) else None)"

datatype error =
    TypeError           \<comment> \<open>a property read on \<^verbatim>\<open>undefined\<close>\<close>
  | UndefinedElement    \<comment> \<open>the array would hold \<^verbatim>\<open>undefined\<close> in place of an entry\<close>
  | PipelineFailure     \<comment> \<open>a rejected promise or exception inside the merge\<close>

text \<open>
  Modelled from the spec: \<^verbatim>\<open>arrayMove\<close> is imported from the drag-and-drop library and
  its source is not part of the repository. The specification describes it as the
  standard array move-element operation: remove the entry at the first index and
  reinsert it at the second, shifting the entries in between. It is written here with
  the two \<^verbatim>\<open>splice\<close> calls of that operation,
  \<^verbatim>\<open>a.splice(to < 0 ? a.length + to : to, 0, a.splice(from, 1)[0])\<close>, whose first
  argument is evaluated before the removal. When the removal takes nothing out, the
  inserted value is \<^verbatim>\<open>undefined\<close>.
\<close>

definition arrayMove :: "'a list \<Rightarrow> int \<Rightarrow> int \<Rightarrow> error + 'a list" where
  "arrayMove array from to =
     (let target = (if to < 0 then int (length array) + to else to);
          (removed, rest) = splice from 1 [] array
      in case removed of
           [] \<Rightarrow> Inl UndefinedElement
         | x # _ \<Rightarrow> Inr (snd (splice target 0 [x] rest)))"

section \<open>Data model\<close>

datatype DocType = Pdf | Image | Office | Text

type_synonym bytes = "nat list"

text \<open>The browser's \<^verbatim>\<open>File\<close>: name, size and MIME type; its bytes are read through the environment.\<close>

record File =
  file_name :: string
  file_size :: nat
  file_type :: string

text \<open>
  \<^verbatim>\<open>DocFile\<close> of \<^verbatim>\<open>types.ts\<close>. The fields \<^verbatim>\<open>id\<close>, \<^verbatim>\<open>file\<close>, \<^verbatim>\<open>name\<close>, \<^verbatim>\<open>size\<close> and
  \<^verbatim>\<open>type\<close> are renamed, since the bare names are taken.
\<close>

record DocFile =
  docId :: string
  fileOf :: File
  docName :: string
  docSize :: nat
  docType :: DocType
  previewUrl :: "string option"
  rotation :: int

definition OFFICE_EXTENSIONS :: "string list" where
  "OFFICE_EXTENSIONS = [''.doc'', ''.docx'', ''.xls'', ''.xlsx'', ''.ppt'', ''.pptx'']"

definition IMAGE_EXTENSIONS :: "string list" where
  "IMAGE_EXTENSIONS = [''.png'', ''.jpg'', ''.jpeg'', ''.webp'']"

text \<open>\<^verbatim>\<open>toLowerCase\<close> on the ASCII letters; other bytes are left as they are.\<close>

definition lowerChar :: "char \<Rightarrow> char" where
  "lowerChar c =
     (let n = (of_char c :: nat) in if 65 \<le> n \<and> n \<le> 90 then char_of (n + 32) else c)"

definition toLowerCase :: "string \<Rightarrow> string" where
  "toLowerCase s = map lowerChar s"

definition endsWith :: "string \<Rightarrow> string \<Rightarrow> bool" where
  "endsWith s ext = suffix ext s"

definition startsWith :: "string \<Rightarrow> string \<Rightarrow> bool" where
  "startsWith s p = prefix p s"

definition getFileType :: "string \<Rightarrow> DocType" where
  "getFileType fileName =
     (let lower = toLowerCase fileName
      in if endsWith lower ''.pdf'' then Pdf
         else if list_ex (\<lambda>ext. endsWith lower ext) IMAGE_EXTENSIONS then Image
         else if list_ex (\<lambda>ext. endsWith lower ext) OFFICE_EXTENSIONS then Office
         else Text)"

section \<open>Application state\<close>

text \<open>
  The component state of \<^verbatim>\<open>App\<close> (\<^verbatim>\<open>files\<close>, \<^verbatim>\<open>selectedIds\<close>, \<^verbatim>\<open>fileName\<close>,
  \<^verbatim>\<open>isDragging\<close>, \<^verbatim>\<open>isProcessing\<close>) together with the effects the handlers have on
  the browser: the object URLs revoked, the alerts shown and the downloads triggered,
  each as a log in call order. \<open>idCalls\<close> and \<open>urlCalls\<close> count the calls of
  \<^verbatim>\<open>generateId\<close> and \<^verbatim>\<open>URL.createObjectURL\<close> made so far.
\<close>

record state =
  files :: "DocFile list"
  selectedIds :: "string fset"
  fileName :: string
  isDragging :: bool
  isProcessing :: bool
  idCalls :: nat
  urlCalls :: nat
  revoked :: "string list"
  alerts :: "string list"
  downloads :: "(string \<times> bytes) list"

definition initialState :: state where
  "initialState =
     \<lparr>files = [], selectedIds = {||}, fileName = [], isDragging = False,
      isProcessing = False, idCalls = 0, urlCalls = 0, revoked = [], alerts = [],
      downloads = []\<rparr>"

section \<open>Document list operations\<close>

definition nextRotation :: "int \<Rightarrow> int" where
  "nextRotation r = (r + 90) mod 360"

definition handleRotate :: "string \<Rightarrow> state \<Rightarrow> state" where
  "handleRotate ident st =
     st\<lparr>files := map (\<lambda>f. if docId f = ident
                             then f\<lparr>rotation := nextRotation (rotation f)\<rparr> else f)
                     (files st)\<rparr>"

definition handleBulkRotate :: "state \<Rightarrow> state" where
  "handleBulkRotate st =
     st\<lparr>files := map (\<lambda>f. if docId f |\<in>| selectedIds st
                             then f\<lparr>rotation := nextRotation (rotation f)\<rparr> else f)
                     (files st)\<rparr>"

definition handleDelete :: "string \<Rightarrow> state \<Rightarrow> state" where
  "handleDelete ident st =
     st\<lparr>files := filter (\<lambda>f. docId f \<noteq> ident) (files st),
        selectedIds := selectedIds st |-| {|ident|}\<rparr>"

definition handleBulkDelete :: "state \<Rightarrow> state" where
  "handleBulkDelete st =
     st\<lparr>files := filter (\<lambda>f. docId f |\<notin>| selectedIds st) (files st),
        selectedIds := {||}\<rparr>"

text \<open>The inline handler of the button shown when nothing is selected.\<close>

definition clearAll :: "state \<Rightarrow> state" where
  "clearAll st = st\<lparr>files := [], selectedIds := {||}\<rparr>"

definition toggleSelection :: "string \<Rightarrow> state \<Rightarrow> state" where
  "toggleSelection ident st =
     (if ident |\<in>| selectedIds st
      then st\<lparr>selectedIds := selectedIds st |-| {|ident|}\<rparr>
      else st\<lparr>selectedIds := finsert ident (selectedIds st)\<rparr>)"

definition toggleSelectAll :: "state \<Rightarrow> state" where
  "toggleSelectAll st =
     (if fcard (selectedIds st) = length (files st)
      then st\<lparr>selectedIds := {||}\<rparr>
      else st\<lparr>selectedIds := fset_of_list (map docId (files st))\<rparr>)"

section \<open>Moving entries up and down\<close>

datatype direction = Up | Down

text \<open>
  \<^verbatim>\<open>Math.min(...indices)\<close> and \<^verbatim>\<open>Math.max(...indices)\<close>. With no argument they are
  \<^verbatim>\<open>Infinity\<close> and \<^verbatim>\<open>-Infinity\<close>, for which \<open>None\<close> stands.
\<close>

fun mathMin :: "int list \<Rightarrow> int option" where
  "mathMin [] = None"
| "mathMin (x # xs) = (case mathMin xs of None \<Rightarrow> Some x | Some m \<Rightarrow> Some (min x m))"

fun mathMax :: "int list \<Rightarrow> int option" where
  "mathMax [] = None"
| "mathMax (x # xs) = (case mathMax xs of None \<Rightarrow> Some x | Some m \<Rightarrow> Some (max x m))"

definition selectedIndices :: "string fset \<Rightarrow> DocFile list \<Rightarrow> int list" where
  "selectedIndices sel prev =
     filter (\<lambda>i. i \<noteq> -1)
       (map (\<lambda>(f, i). if docId f |\<in>| sel then int i else -1) (zip prev [0..<length prev]))"

text \<open>
  The updater of the group branch of \<^verbatim>\<open>handleMove\<close>. When no selected id is in the
  list, \<^verbatim>\<open>firstSelectedIndex\<close> is \<^verbatim>\<open>Infinity\<close> (or \<^verbatim>\<open>lastSelectedIndex\<close> is
  \<^verbatim>\<open>-Infinity\<close>): the comparison with the boundary fails, the array read gives
  \<^verbatim>\<open>undefined\<close>, and reading its \<^verbatim>\<open>id\<close> throws.
\<close>

definition moveGroup :: "string fset \<Rightarrow> direction \<Rightarrow> DocFile list \<Rightarrow> error + DocFile list" where
  "moveGroup sel dir prev =
     (let selectedItems = filter (\<lambda>f. docId f |\<in>| sel) prev;
          unselectedItems = filter (\<lambda>f. docId f |\<notin>| sel) prev;
          indices = selectedIndices sel prev
      in case dir of
           Up \<Rightarrow>
             (case mathMin indices of
                None \<Rightarrow> Inl TypeError
              | Some firstSelectedIndex \<Rightarrow>
                  if firstSelectedIndex = 0 then Inr prev
                  else (case elemAt prev (firstSelectedIndex - 1) of
                          None \<Rightarrow> Inl TypeError
                        | Some itemAbove \<Rightarrow>
                            let itemAboveId = docId itemAbove;
                                indexInUnselected =
                                  findIndex (\<lambda>f. docId f = itemAboveId) unselectedItems
                            in Inr (snd (splice indexInUnselected 0 selectedItems
                                           unselectedItems))))
         | Down \<Rightarrow>
             (case mathMax indices of
                None \<Rightarrow> Inl TypeError
              | Some lastSelectedIndex \<Rightarrow>
                  if lastSelectedIndex = int (length prev) - 1 then Inr prev
                  else (case elemAt prev (lastSelectedIndex + 1) of
                          None \<Rightarrow> Inl TypeError
                        | Some itemBelow \<Rightarrow>
                            let itemBelowId = docId itemBelow;
                                indexInUnselected =
                                  findIndex (\<lambda>f. docId f = itemBelowId) unselectedItems
                            in Inr (snd (splice (indexInUnselected + 1) 0 selectedItems
                                           unselectedItems)))))"

text \<open>The single item logic of \<^verbatim>\<open>handleMove\<close>.\<close>

definition moveSingle :: "string \<Rightarrow> direction \<Rightarrow> state \<Rightarrow> error + state" where
  "moveSingle ident dir st =
     (let index = findIndex (\<lambda>f. docId f = ident) (files st)
      in if index = -1 then Inr st
         else let newIndex = (case dir of Up \<Rightarrow> index - 1 | Down \<Rightarrow> index + 1)
              in if newIndex < 0 \<or> newIndex \<ge> int (length (files st)) then Inr st
                 else (case arrayMove (files st) index newIndex of
                         Inl e \<Rightarrow> Inl e
                       | Inr newFiles \<Rightarrow> Inr (st\<lparr>files := newFiles\<rparr>)))"

text \<open>
  \<^verbatim>\<open>handleMove\<close>: \<^verbatim>\<open>performMove\<close> runs once, inside a view transition when the
  browser has one and directly otherwise.
\<close>

definition handleMove :: "string \<Rightarrow> direction \<Rightarrow> state \<Rightarrow> error + state" where
  "handleMove ident dir st =
     (if ident |\<in>| selectedIds st \<and> fcard (selectedIds st) > 1
      then (case moveGroup (selectedIds st) dir (files st) of
              Inl e \<Rightarrow> Inl e
            | Inr newFiles \<Rightarrow> Inr (st\<lparr>files := newFiles\<rparr>))
      else moveSingle ident dir st)"

section \<open>The drag gesture\<close>

definition handleDragStart :: "state \<Rightarrow> state" where
  "handleDragStart st = st\<lparr>isDragging := True\<rparr>"

text \<open>The updater of the group branch of \<^verbatim>\<open>handleDragEnd\<close>.\<close>

definition dragGroup :: "string fset \<Rightarrow> string \<Rightarrow> string \<Rightarrow> DocFile list \<Rightarrow> error + DocFile list" where
  "dragGroup sel activeId overId items =
     (let selectedItems = filter (\<lambda>i. docId i |\<in>| sel) items;
          unselectedItems = filter (\<lambda>i. docId i |\<notin>| sel) items
      in if overId |\<notin>| sel
         then (let overIndexInUnselected = findIndex (\<lambda>i. docId i = overId) unselectedItems;
                   originalActiveIndex = findIndex (\<lambda>i. docId i = activeId) items;
                   originalOverIndex = findIndex (\<lambda>i. docId i = overId) items
               in if originalActiveIndex < originalOverIndex
                  then Inr (snd (splice (overIndexInUnselected + 1) 0 selectedItems
                                   unselectedItems))
                  else Inr (snd (splice overIndexInUnselected 0 selectedItems
                                   unselectedItems)))
         else (let oldIndex = findIndex (\<lambda>i. docId i = activeId) items;
                   newIndex = findIndex (\<lambda>i. docId i = overId) items
               in arrayMove items oldIndex newIndex))"

text \<open>The updater of the single item branch.\<close>

definition dragSingle :: "string \<Rightarrow> string \<Rightarrow> DocFile list \<Rightarrow> error + DocFile list" where
  "dragSingle activeId overId items =
     (let oldIndex = findIndex (\<lambda>i. docId i = activeId) items;
          newIndex = findIndex (\<lambda>i. docId i = overId) items
      in arrayMove items oldIndex newIndex)"

text \<open>
  \<^verbatim>\<open>handleDragEnd\<close>; the second argument is \<^verbatim>\<open>event.over\<close>, \<open>None\<close> when the drop
  has no target.
\<close>

definition handleDragEnd :: "string \<Rightarrow> string option \<Rightarrow> state \<Rightarrow> error + state" where
  "handleDragEnd activeId over st0 =
     (let st = st0\<lparr>isDragging := False\<rparr>
      in case over of
           None \<Rightarrow> Inr st
         | Some overId \<Rightarrow>
             if activeId = overId then Inr st
             else (case (if activeId |\<in>| selectedIds st \<and> fcard (selectedIds st) > 1
                         then dragGroup (selectedIds st) activeId overId (files st)
                         else dragSingle activeId overId (files st)) of
                     Inl e \<Rightarrow> Inl e
                   | Inr newFiles \<Rightarrow> Inr (st\<lparr>files := newFiles\<rparr>)))"

section \<open>The environment: random identifiers, object URLs and the PDF library\<close>

datatype StandardFonts = Helvetica | HelveticaBold

record PDFImage =
  width :: rat
  height :: rat

datatype drawing =
    DrawImage PDFImage rat rat rat rat
  | DrawText string rat rat rat StandardFonts "rat \<times> rat \<times> rat"
  | DrawRectangle rat rat rat rat "rat \<times> rat \<times> rat" rat

record PDFPage =
  pageRotation :: int
  pageSize :: "rat \<times> rat"
  content :: "drawing list"

text \<open>
  What the handlers take from outside the repository, as parameters:
  \<^item> \<open>randomId k\<close>: the string \<^verbatim>\<open>Math.random().toString(36).substr(2, 9)\<close> of the
    \<open>k\<close>-th call of \<^verbatim>\<open>generateId\<close>;
  \<^item> \<open>objectURL k\<close>: the URL returned by the \<open>k\<close>-th call of
    \<^verbatim>\<open>URL.createObjectURL\<close>;
  \<^item> \<open>arrayBuffer\<close>: the bytes of a file, \<open>None\<close> when the read is rejected;
  \<^item> \<open>pdfLoad\<close>: \<^verbatim>\<open>PDFDocument.load\<close>, the pages of the source document, \<open>None\<close>
    when it throws (corrupt or encrypted input);
  \<^item> \<open>copyPagesOk\<close>: whether \<^verbatim>\<open>copyPages\<close> succeeds on these pages;
  \<^item> \<open>embedJpg\<close>, \<open>embedPng\<close>: the embedded image, \<open>None\<close> when decoding fails;
  \<^item> \<open>embedFontOk\<close>: whether \<^verbatim>\<open>embedFont\<close> succeeds;
  \<^item> \<open>widthOfTextAtSize\<close>: the measured width of a text;
  \<^item> \<open>pdfSave\<close>: the serialised document, \<open>None\<close> when \<^verbatim>\<open>save\<close> throws.
\<close>

record env =
  randomId :: "nat \<Rightarrow> string"
  objectURL :: "nat \<Rightarrow> string"
  arrayBuffer :: "File \<Rightarrow> bytes option"
  pdfLoad :: "bytes \<Rightarrow> PDFPage list option"
  copyPagesOk :: "PDFPage list \<Rightarrow> bool"
  embedJpg :: "bytes \<Rightarrow> PDFImage option"
  embedPng :: "bytes \<Rightarrow> PDFImage option"
  embedFontOk :: "StandardFonts \<Rightarrow> bool"
  widthOfTextAtSize :: "StandardFonts \<Rightarrow> string \<Rightarrow> rat \<Rightarrow> rat"
  pdfSave :: "PDFPage list \<Rightarrow> bytes option"

section \<open>Ingestion\<close>

text \<open>
  The \<^verbatim>\<open>map\<close> of \<^verbatim>\<open>handleFilesSelected\<close>: one new entry per file, in order; the two
  counters are the numbers of \<^verbatim>\<open>generateId\<close> and \<^verbatim>\<open>createObjectURL\<close> calls made
  before.
\<close>

fun newDocFiles :: "env \<Rightarrow> File list \<Rightarrow> nat \<Rightarrow> nat \<Rightarrow> DocFile list \<times> nat \<times> nat" where
  "newDocFiles e [] i u = ([], i, u)"
| "newDocFiles e (f # fs) i u =
     (let ident = randomId e i;
          (url, u') = (if startsWith (file_type f) ''image/''
                       then (Some (objectURL e u), Suc u) else (None, u));
          (rest, i'', u'') = newDocFiles e fs (Suc i) u'
      in (\<lparr>docId = ident, fileOf = f, docName = file_name f, docSize = file_size f,
           docType = getFileType (file_name f), previewUrl = url, rotation = 0\<rparr> # rest,
          i'', u''))"

definition handleFilesSelected :: "env \<Rightarrow> File list option \<Rightarrow> state \<Rightarrow> state" where
  "handleFilesSelected e fileList st =
     (case fileList of
        None \<Rightarrow> st
      | Some fl \<Rightarrow>
          let (newFiles, i, u) = newDocFiles e fl (idCalls st) (urlCalls st)
          in st\<lparr>files := files st @ newFiles, idCalls := i, urlCalls := u\<rparr>)"

section \<open>The merge pipeline\<close>

text \<open>
  \<^verbatim>\<open>page.setRotation(degrees(a))\<close> of the PDF library, whose source is not part of
  the repository: it stores the angle it is given as the page's rotation, with no
  reduction modulo 360, after asserting that the angle is a multiple of 90 (the call
  throws otherwise). \<^verbatim>\<open>page.getRotation().angle\<close> reads the stored value.
\<close>

definition setRotation :: "int \<Rightarrow> PDFPage \<Rightarrow> error + PDFPage" where
  "setRotation angle page =
     (if angle mod 90 = 0 then Inr (page\<lparr>pageRotation := angle\<rparr>) else Inl PipelineFailure)"

text \<open>The \<^verbatim>\<open>forEach\<close> over the copied pages of a pdf entry.\<close>

fun addRotatedPages :: "int \<Rightarrow> PDFPage list \<Rightarrow> PDFPage list \<Rightarrow> error + PDFPage list" where
  "addRotatedPages r [] mergedPdf = Inr mergedPdf"
| "addRotatedPages r (page # pages) mergedPdf =
     (let existingRotation = pageRotation page
      in case setRotation (existingRotation + r) page of
           Inl e \<Rightarrow> Inl e
         | Inr page' \<Rightarrow> addRotatedPages r pages (mergedPdf @ [page']))"

text \<open>
  The placeholder page of an entry that is neither pdf nor image. The coordinates are
  exact rationals here; the code computes them in double precision, so a centred
  \<open>x\<close> position can differ from the one given here in the last place.
\<close>

definition placeholderPage :: "env \<Rightarrow> string \<Rightarrow> PDFPage" where
  "placeholderPage e name =
     (let w = 595; h = 842;
          title = ''Documento Pendiente de Procesar'';
          subtext = ''Para ver el contenido real, configure el servidor backend.'';
          titleSize = 20; nameSize = 14; subtextSize = 10;
          titleWidth = widthOfTextAtSize e HelveticaBold title titleSize;
          nameWidth = widthOfTextAtSize e Helvetica name nameSize;
          subtextWidth = widthOfTextAtSize e Helvetica subtext subtextSize
      in \<lparr>pageRotation = 0, pageSize = (w, h),
          content =
            [DrawText title ((w - titleWidth) / 2) (h / 2 + 30) titleSize HelveticaBold
               (1/5, 1/5, 1/5),
             DrawText name ((w - nameWidth) / 2) (h / 2) nameSize Helvetica
               (7/50, 39/100, 23/25),
             DrawText subtext ((w - subtextWidth) / 2) (h / 2 - 25) subtextSize Helvetica
               (3/5, 3/5, 3/5),
             DrawRectangle 50 (h / 2 - 60) (w - 100) 140 (4/5, 4/5, 4/5) 1]\<rparr>)"

text \<open>The body of the \<^verbatim>\<open>for\<close> loop of \<^verbatim>\<open>handleMerge\<close> for one entry.\<close>

definition mergeEntry :: "env \<Rightarrow> DocFile \<Rightarrow> PDFPage list \<Rightarrow> error + PDFPage list" where
  "mergeEntry e docFile mergedPdf =
     (case arrayBuffer e (fileOf docFile) of
        None \<Rightarrow> Inl PipelineFailure
      | Some fileBytes \<Rightarrow>
          if docType docFile = Pdf then
            (case pdfLoad e fileBytes of
               None \<Rightarrow> Inl PipelineFailure
             | Some srcPdf \<Rightarrow>
                 if copyPagesOk e srcPdf
                 then addRotatedPages (rotation docFile) srcPdf mergedPdf
                 else Inl PipelineFailure)
          else if docType docFile = Image then
            (case (if file_type (fileOf docFile) = ''image/jpeg''
                      \<or> endsWith (toLowerCase (file_name (fileOf docFile))) ''.jpg''
                      \<or> endsWith (toLowerCase (file_name (fileOf docFile))) ''.jpeg''
                   then embedJpg e fileBytes else embedPng e fileBytes) of
               None \<Rightarrow> Inl PipelineFailure
             | Some img \<Rightarrow>
                 (case setRotation (rotation docFile)
                         \<lparr>pageRotation = 0, pageSize = (width img, height img),
                          content = [DrawImage img 0 0 (width img) (height img)]\<rparr> of
                    Inl err \<Rightarrow> Inl err
                  | Inr page \<Rightarrow> Inr (mergedPdf @ [page])))
          else
            (if embedFontOk e HelveticaBold \<and> embedFontOk e Helvetica
             then Inr (mergedPdf @ [placeholderPage e (docName docFile)])
             else Inl PipelineFailure))"

fun mergeEntries :: "env \<Rightarrow> DocFile list \<Rightarrow> PDFPage list \<Rightarrow> error + PDFPage list" where
  "mergeEntries e [] mergedPdf = Inr mergedPdf"
| "mergeEntries e (docFile # rest) mergedPdf =
     (case mergeEntry e docFile mergedPdf of
        Inl err \<Rightarrow> Inl err
      | Inr mergedPdf' \<Rightarrow> mergeEntries e rest mergedPdf')"

text \<open>
  The text of the \<^verbatim>\<open>alert\<close> in the \<^verbatim>\<open>catch\<close> block, with its accented letters as
  UTF-8 bytes.
\<close>

definition mergeAlert :: string where
  "mergeAlert =
     ''Ocurri'' @ [char_of (195::nat), char_of (179::nat)]
     @ '' un error al procesar los archivos. Aseg''
     @ [char_of (195::nat), char_of (186::nat)]
     @ ''rate de que los PDFs no est'' @ [char_of (195::nat), char_of (169::nat)]
     @ ''n encriptados y las im'' @ [char_of (195::nat), char_of (161::nat)]
     @ ''genes sean v'' @ [char_of (195::nat), char_of (161::nat)] @ ''lidas.''"

text \<open>
  The three outcomes of the \<^verbatim>\<open>try\<close> block: the pages of the merged document and its
  serialisation, or the error that was thrown.
\<close>

definition mergeDocument :: "env \<Rightarrow> DocFile list \<Rightarrow> error + bytes" where
  "mergeDocument e fs =
     (case mergeEntries e fs [] of
        Inl err \<Rightarrow> Inl err
      | Inr mergedPdf \<Rightarrow>
          (case pdfSave e mergedPdf of None \<Rightarrow> Inl PipelineFailure | Some pdfBytes \<Rightarrow> Inr pdfBytes))"

text \<open>
  \<^verbatim>\<open>handleMerge\<close>, run to completion. On success the download is triggered under the
  name \<^verbatim>\<open>(fileName || 'documento_fusionado') + '.pdf'\<close> and the URL made for it is
  revoked; on an error the \<^verbatim>\<open>catch\<close> block shows one alert; \<^verbatim>\<open>finally\<close> resets
  \<^verbatim>\<open>isProcessing\<close>.
\<close>

definition handleMerge :: "env \<Rightarrow> state \<Rightarrow> state" where
  "handleMerge e st =
     (if length (files st) = 0 then st
      else (case mergeDocument e (files st) of
              Inr pdfBytes \<Rightarrow>
                (let url = objectURL e (urlCalls st);
                     download = (if fileName st = [] then ''documento_fusionado''
                                 else fileName st) @ ''.pdf''
                 in st\<lparr>urlCalls := Suc (urlCalls st),
                       downloads := downloads st @ [(download, pdfBytes)],
                       revoked := revoked st @ [url],
                       isProcessing := False\<rparr>)
            | Inl err \<Rightarrow>
                st\<lparr>alerts := alerts st @ [mergeAlert], isProcessing := False\<rparr>))"

section \<open>Runs of the application\<close>

datatype event =
    FilesSelected "File list option"
  | DragStart
  | DragEnd string "string option"
  | Rotate string
  | BulkRotate
  | Delete string
  | BulkDelete
  | ClearAll
  | Move string direction
  | ToggleSelection string
  | ToggleSelectAll
  | SetFileName string
  | Merge

fun handle :: "env \<Rightarrow> event \<Rightarrow> state \<Rightarrow> error + state" where
  "handle e (FilesSelected fileList) st = Inr (handleFilesSelected e fileList st)"
| "handle e DragStart st = Inr (handleDragStart st)"
| "handle e (DragEnd activeId over) st = handleDragEnd activeId over st"
| "handle e (Rotate ident) st = Inr (handleRotate ident st)"
| "handle e BulkRotate st = Inr (handleBulkRotate st)"
| "handle e (Delete ident) st = Inr (handleDelete ident st)"
| "handle e BulkDelete st = Inr (handleBulkDelete st)"
| "handle e ClearAll st = Inr (clearAll st)"
| "handle e (Move ident dir) st = handleMove ident dir st"
| "handle e (ToggleSelection ident) st = Inr (toggleSelection ident st)"
| "handle e ToggleSelectAll st = Inr (toggleSelectAll st)"
| "handle e (SetFileName n) st = Inr (st\<lparr>fileName := n\<rparr>)"
| "handle e Merge st = Inr (handleMerge e st)"

text \<open>A run handles the events one after the other and stops at an uncaught error.\<close>

fun run :: "env \<Rightarrow> event list \<Rightarrow> state \<Rightarrow> error + state" where
  "run e [] st = Inr st"
| "run e (ev # evs) st =
     (case handle e ev st of Inl err \<Rightarrow> Inl err | Inr st' \<Rightarrow> run e evs st')"

section \<open>Predicates and sample data for the properties\<close>

text \<open>Every selected id is the id of an entry of the list.\<close>

definition selectionLive :: "state \<Rightarrow> bool" where
  "selectionLive st = (selectedIds st |\<subseteq>| fset_of_list (map docId (files st)))"

text \<open>A pdf entry with the given id, as ingestion builds it for the file \<open>i.pdf\<close>.\<close>

definition entry :: "string \<Rightarrow> DocFile" where
  "entry i =
     \<lparr>docId = i,
      fileOf = \<lparr>file_name = i @ ''.pdf'', file_size = 1, file_type = ''application/pdf''\<rparr>,
      docName = i @ ''.pdf'', docSize = 1, docType = Pdf, previewUrl = None, rotation = 0\<rparr>"

text \<open>
  An environment in which nothing fails: the identifiers and the URLs are all
  different, every file reads as the empty byte sequence, every pdf has one upright A4
  page, and every image is 640 by 480.
\<close>

definition samplePage :: PDFPage where
  "samplePage = \<lparr>pageRotation = 0, pageSize = (595, 842), content = []\<rparr>"

definition sampleEnv :: env where
  "sampleEnv =
     \<lparr>randomId = (\<lambda>k. ''id'' @ replicate k (CHR ''x'')),
      objectURL = (\<lambda>k. ''blob:'' @ replicate k (CHR ''u'')),
      arrayBuffer = (\<lambda>f. Some []),
      pdfLoad = (\<lambda>b. Some [samplePage]),
      copyPagesOk = (\<lambda>pages. True),
      embedJpg = (\<lambda>b. Some \<lparr>width = 640, height = 480\<rparr>),
      embedPng = (\<lambda>b. Some \<lparr>width = 640, height = 480\<rparr>),
      embedFontOk = (\<lambda>font. True),
      widthOfTextAtSize = (\<lambda>font t s. s * of_nat (length t) / 2),
      pdfSave = (\<lambda>pages. Some [length pages])\<rparr>"

text \<open>An image file as the browser hands it over.\<close>

definition pngFile :: File where
  "pngFile = \<lparr>file_name = ''scan.png'', file_size = 2048, file_type = ''image/png''\<rparr>"

text \<open>
  A step of the merge of one entry fails: the read of its bytes, the load of the
  source document, the page copy, the image embedding or the font embedding.
\<close>

definition stepFails :: "env \<Rightarrow> DocFile \<Rightarrow> bool" where
  "stepFails e docFile =
     (case arrayBuffer e (fileOf docFile) of
        None \<Rightarrow> True
      | Some fileBytes \<Rightarrow>
          if docType docFile = Pdf then
            (case pdfLoad e fileBytes of None \<Rightarrow> True | Some srcPdf \<Rightarrow> \<not> copyPagesOk e srcPdf)
          else if docType docFile = Image then
            (if file_type (fileOf docFile) = ''image/jpeg''
                \<or> endsWith (toLowerCase (file_name (fileOf docFile))) ''.jpg''
                \<or> endsWith (toLowerCase (file_name (fileOf docFile))) ''.jpeg''
             then embedJpg e fileBytes = None else embedPng e fileBytes = None)
          else \<not> (embedFontOk e HelveticaBold \<and> embedFontOk e Helvetica))"

text \<open>The entry that ingestion builds first in that environment for the image file.\<close>

definition pngEntry :: DocFile where
  "pngEntry =
     \<lparr>docId = ''id'', fileOf = pngFile, docName = ''scan.png'', docSize = 2048,
      docType = Image, previewUrl = Some ''blob:'', rotation = 0\<rparr>"

text \<open>The same environment with a generator that returns the same string at every call.\<close>

definition repeatingEnv :: env where
  "repeatingEnv = sampleEnv\<lparr>randomId := (\<lambda>k. ''dup'')\<rparr>"


section \<open>Facts about the array primitives\<close>

lemma findIndex_bounds: "-1 \<le> findIndex P xs \<and> findIndex P xs < int (length xs)"
  by (induction xs) (auto simp: Let_def)

lemma findIndex_none: "(\<forall>x\<in>set xs. \<not> P x) \<Longrightarrow> findIndex P xs = -1"
  by (induction xs) (auto simp: Let_def)

lemma findIndex_first:
  "(\<forall>y\<in>set pre. \<not> P y) \<Longrightarrow> P x \<Longrightarrow> findIndex P (pre @ x # post) = int (length pre)"
  by (induction pre) (auto simp: Let_def)

lemma splice_insert:
  "k \<le> length xs \<Longrightarrow> snd (splice (int k) 0 items xs) = take k xs @ items @ drop k xs"
  by (simp add: splice_def spliceStart_def Let_def min_def)

lemma spliceStart_nat: "spliceStart (int k) xs = min k (length xs)"
  by (simp add: spliceStart_def Let_def min_def)

lemma arrayMove_nat:
  assumes "i < length xs"
  shows "arrayMove xs (int i) (int j) =
           Inr (take (min j (length xs - 1)) (take i xs @ drop (Suc i) xs) @ xs ! i
                # drop (min j (length xs - 1)) (take i xs @ drop (Suc i) xs))"
proof -
  have rem: "take (Suc 0) (drop i xs) = [xs ! i]"
    using assms by (simp add: take_Suc hd_drop_conv_nth)
  have len: "length (take i xs @ drop (Suc i) xs) = length xs - 1"
    using assms by simp
  show ?thesis
    using assms rem
    by (simp add: arrayMove_def splice_def spliceStart_nat Let_def len del: length_append)
qed

lemma arrayMove_down:
  "arrayMove (pre @ x # mid @ y # post) (int (length pre)) (int (length pre + 1 + length mid))
     = Inr (pre @ mid @ y # x # post)"
  by (subst arrayMove_nat) (simp_all add: min_def nth_append)

lemma arrayMove_up:
  "arrayMove (pre @ y # mid @ x # post) (int (length pre + 1 + length mid)) (int (length pre))
     = Inr (pre @ x # y # mid @ post)"
  by (subst arrayMove_nat) (simp_all add: min_def nth_append)

lemma arrayMove_mset:
  assumes "arrayMove xs from to = Inr ys"
  shows "mset ys = mset xs"
proof -
  define s where "s = spliceStart from xs"
  define d where "d = min 1 (length xs - s)"
  define rest where "rest = take s xs @ drop (s + d) xs"
  define target where "target = (if to < 0 then int (length xs) + to else to)"
  define p where "p = spliceStart target rest"
  have sp: "splice from 1 [] xs = (take d (drop s xs), rest)"
    by (simp add: splice_def Let_def s_def d_def rest_def)
  show ?thesis
  proof (cases "s < length xs")
    case False
    then have "take d (drop s xs) = []" by simp
    with assms sp show ?thesis
      by (simp add: arrayMove_def Let_def)
  next
    case True
    then have d: "d = 1" by (simp add: d_def)
    from True have rem: "take d (drop s xs) = [xs ! s]"
      by (simp add: d take_Suc_conv_app_nth[of 0] hd_drop_conv_nth take_Suc)
    have "ys = take p rest @ [xs ! s] @ drop p rest"
      using assms sp rem
      by (simp add: arrayMove_def Let_def splice_def p_def target_def)
    then have "mset ys = mset (take p rest @ drop p rest) + {#xs ! s#}"
      by (simp del: append_take_drop_id)
    also have "\<dots> = mset rest + {#xs ! s#}"
      by (simp only: append_take_drop_id)
    also have "\<dots> = mset (take s xs @ xs ! s # drop (Suc s) xs)"
      by (simp add: rest_def d)
    also have "\<dots> = mset xs"
      using True by (simp only: id_take_nth_drop [symmetric])
    finally show ?thesis .
  qed
qed

lemma filter_map_index:
  "filter (\<lambda>i. i \<noteq> -1) (map (\<lambda>i. if Q i then int i else -1) ns) = map int (filter Q ns)"
  by (induction ns) auto

lemma selectedIndices_eq:
  "selectedIndices sel prev =
     map int (filter (\<lambda>i. docId (prev ! i) |\<in>| sel) [0..<length prev])"
proof -
  have "map (\<lambda>(f, i). if docId f |\<in>| sel then int i else -1) (zip prev [0..<length prev])
        = map (\<lambda>i. if docId (prev ! i) |\<in>| sel then int i else -1) [0..<length prev]"
    by (rule nth_equalityI) simp_all
  then show ?thesis
    by (simp add: selectedIndices_def filter_map_index)
qed

lemma mathMin_mem: "mathMin xs = Some m \<Longrightarrow> m \<in> set xs"
proof (induction xs arbitrary: m)
  case Nil
  then show ?case by simp
next
  case (Cons a xs)
  show ?case
  proof (cases "mathMin xs")
    case None
    with Cons.prems show ?thesis by simp
  next
    case (Some k)
    with Cons.IH have "k \<in> set xs" by simp
    moreover from Some Cons.prems have "m = min a k" by simp
    ultimately show ?thesis by (auto simp: min_def)
  qed
qed

lemma mathMin_least: "\<forall>y\<in>set xs. x \<le> y \<Longrightarrow> mathMin (x # xs) = Some x"
  by (auto split: option.splits dest: mathMin_mem)

lemma first_selected_index:
  assumes "\<forall>f\<in>set pre. docId f |\<notin>| sel" and "docId s |\<in>| sel"
  shows "mathMin (selectedIndices sel (pre @ s # rest)) = Some (int (length pre))"
proof -
  let ?prev = "pre @ s # rest"
  let ?Q = "\<lambda>i. docId (?prev ! i) |\<in>| sel"
  have split: "[0..<length ?prev] = [0..<length pre] @ length pre # [Suc (length pre)..<length ?prev]"
    by (metis length_append length_Cons upt_add_eq_append upt_conv_Cons add_Suc_right
        le0 less_add_Suc1 add_0)
  have "filter ?Q [0..<length pre] = []"
    using assms(1) by (auto simp: filter_empty_conv nth_append)
  moreover have "?Q (length pre)"
    using assms(2) by simp
  ultimately have "filter ?Q [0..<length ?prev]
      = length pre # filter ?Q [Suc (length pre)..<length ?prev]"
    by (simp only: split filter_append filter.simps) simp
  then have "selectedIndices sel ?prev
      = int (length pre) # map int (filter ?Q [Suc (length pre)..<length ?prev])"
    by (simp add: selectedIndices_eq)
  then show ?thesis
    by (simp only: ) (rule mathMin_least, auto)
qed


lemma elemAt_append_Cons: "elemAt (xs @ x # ys) (int (length xs)) = Some x"
  by (simp add: elemAt_def)

section \<open>Selection\<close>

text \<open>
  C9. \<^verbatim>\<open>toggleSelectAll\<close> empties the selection when the size of the selection equals
  the length of the list, and otherwise sets it to the set of all ids of the list; the
  list is not changed.
\<close>

theorem toggleSelectAll_spec:
  "selectedIds (toggleSelectAll st) =
     (if fcard (selectedIds st) = length (files st) then {||}
      else fset_of_list (map docId (files st)))
   \<and> files (toggleSelectAll st) = files st"
  by (simp add: toggleSelectAll_def)

text \<open>Scenario 5: three entries, all three selected; the selection becomes empty.\<close>

theorem toggleSelectAll_scenario5:
  "selectedIds (toggleSelectAll
      (initialState\<lparr>files := [entry ''A'', entry ''B'', entry ''C''],
                     selectedIds := {|''A'', ''B'', ''C''|}\<rparr>)) = {||}"
  using toggleSelectAll_spec
    [of "initialState\<lparr>files := [entry ''A'', entry ''B'', entry ''C''],
                        selectedIds := {|''A'', ''B'', ''C''|}\<rparr>"]
  by (simp add: fcard_finsert_if)

text \<open>
  C10. \<^verbatim>\<open>toggleSelection\<close> toggles the membership of the id in the selection and
  never looks at the list: the new selection is the same whatever the list is, and an
  id that is not selected is inserted even when no entry has it. So the selection
  stays within the ids of the list when the id passed is the id of an entry, and
  leaves them when it is not.
\<close>

theorem toggleSelection_ignores_list:
  "selectedIds (toggleSelection x st) =
     (if x |\<in>| selectedIds st then selectedIds st |-| {|x|} else finsert x (selectedIds st))
   \<and> selectedIds (toggleSelection x (st\<lparr>files := fs\<rparr>)) = selectedIds (toggleSelection x st)
   \<and> files (toggleSelection x st) = files st
   \<and> (x |\<notin>| selectedIds st \<longrightarrow> x |\<in>| selectedIds (toggleSelection x st))
   \<and> (selectionLive st \<and> x \<in> set (map docId (files st))
        \<longrightarrow> selectionLive (toggleSelection x st))
   \<and> (x |\<notin>| selectedIds st \<and> x \<notin> set (map docId (files st))
        \<longrightarrow> \<not> selectionLive (toggleSelection x st))"
  by (auto simp: toggleSelection_def selectionLive_def fset_of_list_elem)

theorem toggleSelection_witness:
  "''ghost'' |\<notin>| selectedIds initialState
   \<and> ''ghost'' \<notin> set (map docId (files initialState))
   \<and> selectionLive initialState
   \<and> selectedIds (toggleSelection ''ghost'' initialState) = {|''ghost''|}
   \<and> \<not> selectionLive (toggleSelection ''ghost'' initialState)
   \<and> selectionLive (initialState\<lparr>files := [entry ''A'']\<rparr>)
   \<and> ''A'' \<in> set (map docId (files (initialState\<lparr>files := [entry ''A'']\<rparr>)))
   \<and> selectionLive (toggleSelection ''A'' (initialState\<lparr>files := [entry ''A'']\<rparr>))"
  using toggleSelection_ignores_list [of "''ghost''" initialState "[]"]
    toggleSelection_ignores_list [of "''A''" "initialState\<lparr>files := [entry ''A'']\<rparr>" "[]"]
  by (simp add: initialState_def selectionLive_def entry_def)

section \<open>Deleting, rotating and moving by id\<close>

text \<open>
  C6, as the code has it. \<^verbatim>\<open>handleDelete\<close> keeps the entries whose id differs from
  the one given, which removes exactly the entry with that id when the ids of the list
  are distinct, and takes the id out of the selection. It makes no call of
  \<^verbatim>\<open>URL.revokeObjectURL\<close>: the log of revoked URLs is as before, so a preview URL
  is released zero times. A second call with the same id changes nothing.
\<close>

theorem handleDelete_spec:
  "files (handleDelete x st) = filter (\<lambda>f. docId f \<noteq> x) (files st)
   \<and> (distinct (map docId (files st)) \<and> files st = pre @ f # post \<and> docId f = x
        \<longrightarrow> files (handleDelete x st) = pre @ post)
   \<and> selectedIds (handleDelete x st) = selectedIds st |-| {|x|}
   \<and> revoked (handleDelete x st) = revoked st
   \<and> handleDelete x (handleDelete x st) = handleDelete x st"
proof -
  have "filter (\<lambda>f. docId f \<noteq> x) (pre @ f # post) = pre @ post"
    if "distinct (map docId (pre @ f # post))" "docId f = x"
  proof -
    from that have "\<forall>g\<in>set pre. docId g \<noteq> x" "\<forall>g\<in>set post. docId g \<noteq> x"
      by (auto simp: image_iff)
    then show ?thesis using that by simp
  qed
  then show ?thesis
    by (auto simp: handleDelete_def)
qed

theorem handleDelete_witness:
  "files (handleDelete ''B'' (initialState\<lparr>files := [entry ''A'', entry ''B'', entry ''C''],
                                           selectedIds := {|''B''|}\<rparr>))
     = [entry ''A'', entry ''C'']
   \<and> selectedIds (handleDelete ''B'' (initialState\<lparr>files := [entry ''A'', entry ''B'', entry ''C''],
                                           selectedIds := {|''B''|}\<rparr>)) = {||}"
  using handleDelete_spec [of "''B''"
      "initialState\<lparr>files := [entry ''A'', entry ''B'', entry ''C''], selectedIds := {|''B''|}\<rparr>"
      "[entry ''A'']" "entry ''B''" "[entry ''C'']"]
  by (simp add: entry_def)

text \<open>
  The release claimed for C6 does not happen: an image is ingested and gets the preview
  URL \<open>blob:\<close>; after the entry is deleted the URL has not been revoked once.
\<close>

theorem handleDelete_never_revokes:
  "files (handleFilesSelected sampleEnv (Some [pngFile]) initialState)
     = [pngEntry]
   \<and> previewUrl pngEntry = Some ''blob:''
   \<and> count_list
        (revoked (handleDelete ''id''
           (handleFilesSelected sampleEnv (Some [pngFile]) initialState))) ''blob:'' \<noteq> 1"
  by (simp add: handleFilesSelected_def handleDelete_def sampleEnv_def pngFile_def pngEntry_def
      initialState_def getFileType_def startsWith_def endsWith_def toLowerCase_def
      lowerChar_def IMAGE_EXTENSIONS_def OFFICE_EXTENSIONS_def Let_def suffix_to_prefix)

text \<open>
  C8, as the code has it. For an id that no entry of the list has, \<^verbatim>\<open>handleRotate\<close>
  and the single item logic of \<^verbatim>\<open>handleMove\<close> return the state as it is, and
  \<^verbatim>\<open>handleDelete\<close> leaves the list as it is and takes the id out of the selection:
  the state is unchanged when the id is not selected. \<^verbatim>\<open>handleRotate\<close> and
  \<^verbatim>\<open>handleDelete\<close> have no failing branch, and the move returns normally.
\<close>

theorem stale_id_noop:
  assumes "x \<notin> set (map docId (files st))"
  shows "handleRotate x st = st
       \<and> files (handleDelete x st) = files st
       \<and> selectedIds (handleDelete x st) = selectedIds st |-| {|x|}
       \<and> (x |\<notin>| selectedIds st \<longrightarrow> handleDelete x st = st)
       \<and> moveSingle x dir st = Inr st
       \<and> (x |\<notin>| selectedIds st \<longrightarrow> handleMove x dir st = Inr st)"
proof -
  from assms have no: "\<forall>f\<in>set (files st). docId f \<noteq> x"
    by auto
  then have m: "map (\<lambda>f. if docId f = x then f\<lparr>rotation := nextRotation (rotation f)\<rparr> else f)
                  (files st) = files st"
    by (simp add: map_idI)
  have f: "filter (\<lambda>f. docId f \<noteq> x) (files st) = files st"
    using no by simp
  have i: "findIndex (\<lambda>f. docId f = x) (files st) = -1"
    using no by (simp add: findIndex_none)
  have ms: "moveSingle x dir st = Inr st"
    by (simp add: moveSingle_def i)
  show ?thesis
    by (simp add: handleRotate_def handleDelete_def handleMove_def m f ms)
qed

theorem stale_id_noop_witness:
  "''ghost'' \<notin> set (map docId (files (initialState\<lparr>files := [entry ''A'', entry ''B'']\<rparr>)))
   \<and> handleRotate ''ghost'' (initialState\<lparr>files := [entry ''A'', entry ''B'']\<rparr>)
       = initialState\<lparr>files := [entry ''A'', entry ''B'']\<rparr>
   \<and> handleDelete ''ghost'' (initialState\<lparr>files := [entry ''A'', entry ''B'']\<rparr>)
       = initialState\<lparr>files := [entry ''A'', entry ''B'']\<rparr>
   \<and> moveSingle ''ghost'' Up (initialState\<lparr>files := [entry ''A'', entry ''B'']\<rparr>)
       = Inr (initialState\<lparr>files := [entry ''A'', entry ''B'']\<rparr>)"
  using stale_id_noop [of "''ghost''" "initialState\<lparr>files := [entry ''A'', entry ''B'']\<rparr>" Up]
  by (simp add: entry_def initialState_def)

text \<open>
  The selection is not always unchanged, as C8 has it: after \<^verbatim>\<open>toggleSelection\<close> of an
  id without entry, \<^verbatim>\<open>handleDelete\<close> of that id changes the selection.
\<close>

theorem handleDelete_stale_selected:
  "''ghost'' \<notin> set (map docId (files (toggleSelection ''ghost'' initialState)))
   \<and> selectedIds (handleDelete ''ghost'' (toggleSelection ''ghost'' initialState))
       \<noteq> selectedIds (toggleSelection ''ghost'' initialState)"
  by (auto simp: toggleSelection_def handleDelete_def initialState_def)

section \<open>The merge pipeline\<close>

lemma addRotatedPages_eq:
  "addRotatedPages r pages merged =
     (if \<forall>p\<in>set pages. (pageRotation p + r) mod 90 = 0
      then Inr (merged @ map (\<lambda>p. p\<lparr>pageRotation := pageRotation p + r\<rparr>) pages)
      else Inl PipelineFailure)"
  by (induction pages arbitrary: merged) (auto simp: setRotation_def Let_def)




lemma stepFails_mergeEntry: "stepFails e d \<Longrightarrow> mergeEntry e d m = Inl PipelineFailure"
  by (auto simp: stepFails_def mergeEntry_def split: option.splits if_splits)

lemma mergeEntry_error: "mergeEntry e d m = Inl err \<Longrightarrow> err = PipelineFailure"
  by (auto simp: mergeEntry_def addRotatedPages_eq setRotation_def
      split: option.splits if_splits sum.splits)

lemma mergeEntries_fail:
  "d \<in> set fs \<Longrightarrow> stepFails e d \<Longrightarrow> mergeEntries e fs m = Inl PipelineFailure"
proof (induction fs arbitrary: m)
  case Nil
  then show ?case by simp
next
  case (Cons a fs)
  show ?case
  proof (cases "mergeEntry e a m")
    case (Inl err)
    then show ?thesis using mergeEntry_error [OF Inl] by simp
  next
    case (Inr m')
    with Cons.prems have "d \<in> set fs"
      by (auto simp: stepFails_mergeEntry)
    then show ?thesis using Cons.IH Cons.prems(2) Inr by simp
  qed
qed

text \<open>
  C7. When a step fails for some entry of the list, the merge produces no document,
  triggers no download, shows exactly one alert, and leaves the list and the selection
  as they were.
\<close>

theorem handleMerge_failure_aborts:
  assumes "d \<in> set (files st)" and "stepFails e d"
  shows "mergeDocument e (files st) = Inl PipelineFailure
       \<and> downloads (handleMerge e st) = downloads st
       \<and> alerts (handleMerge e st) = alerts st @ [mergeAlert]
       \<and> files (handleMerge e st) = files st
       \<and> selectedIds (handleMerge e st) = selectedIds st
       \<and> handleMerge e st = st\<lparr>alerts := alerts st @ [mergeAlert], isProcessing := False\<rparr>"
proof -
  from assms have "mergeDocument e (files st) = Inl PipelineFailure"
    by (simp add: mergeDocument_def mergeEntries_fail)
  moreover from assms(1) have "files st \<noteq> []"
    by auto
  ultimately show ?thesis
    by (simp add: handleMerge_def)
qed

text \<open>
  A pdf entry that merges and an image entry whose decoding fails: one alert, no
  download, the list as before.
\<close>

theorem handleMerge_failure_witness:
  "pngEntry \<in> set (files (initialState\<lparr>files := [entry ''A'', pngEntry]\<rparr>))
   \<and> stepFails (sampleEnv\<lparr>embedPng := (\<lambda>b. None)\<rparr>) pngEntry
   \<and> \<not> stepFails (sampleEnv\<lparr>embedPng := (\<lambda>b. None)\<rparr>) (entry ''A'')
   \<and> handleMerge (sampleEnv\<lparr>embedPng := (\<lambda>b. None)\<rparr>)
        (initialState\<lparr>files := [entry ''A'', pngEntry]\<rparr>)
     = initialState\<lparr>files := [entry ''A'', pngEntry], alerts := [mergeAlert]\<rparr>"
  using handleMerge_failure_aborts
    [of pngEntry "initialState\<lparr>files := [entry ''A'', pngEntry]\<rparr>"
        "sampleEnv\<lparr>embedPng := (\<lambda>b. None)\<rparr>"]
  by (simp add: stepFails_def entry_def pngEntry_def pngFile_def sampleEnv_def initialState_def
      endsWith_def toLowerCase_def lowerChar_def suffix_to_prefix)

section \<open>Moving a group\<close>

text \<open>
  A selection that is not empty and holds only ids of the list splits the list into
  the unselected entries before the first selected one, that entry, and the rest.
\<close>

lemma topmost_selected_exists:
  assumes "sel \<noteq> {||}" and "sel |\<subseteq>| fset_of_list (map docId prev)"
  shows "\<exists>pre s rest. prev = pre @ s # rest \<and> (\<forall>f\<in>set pre. docId f |\<notin>| sel)
           \<and> docId s |\<in>| sel"
proof -
  from assms(1) obtain x where "x |\<in>| sel"
    by auto
  with assms(2) have "x |\<in>| fset_of_list (map docId prev)"
    by blast
  then have "x \<in> docId ` set prev"
    by (simp add: fset_of_list_elem del: fset_of_list_map)
  with \<open>x |\<in>| sel\<close> obtain f where "f \<in> set prev" "docId f |\<in>| sel"
    by auto
  then have "\<exists>x\<in>set prev. docId x |\<in>| sel" by blast
  then obtain pre s rest where "prev = pre @ s # rest" "docId s |\<in>| sel"
    "\<forall>y\<in>set pre. \<not> docId y |\<in>| sel"
    by (auto simp: split_list_first_prop_iff)
  then show ?thesis by blast
qed

text \<open>
  The group move up on a list split in this way, \<open>s\<close> being the topmost selected
  entry after the unselected entries \<open>pre\<close>.
\<close>

lemma moveGroup_up_shape:
  assumes dist: "distinct (map docId prev)"
    and shape: "prev = pre @ s # rest"
    and unsel: "\<forall>f\<in>set pre. docId f |\<notin>| sel"
    and top: "docId s |\<in>| sel"
  shows "(pre = [] \<longrightarrow> moveGroup sel Up prev = Inr prev)
       \<and> (pre \<noteq> [] \<longrightarrow>
            moveGroup sel Up prev =
              Inr (butlast pre @ filter (\<lambda>f. docId f |\<in>| sel) prev
                   @ last pre # filter (\<lambda>f. docId f |\<notin>| sel) rest))
       \<and> (\<forall>new. moveGroup sel Up prev = Inr new \<longrightarrow>
            filter (\<lambda>f. docId f |\<in>| sel) new = filter (\<lambda>f. docId f |\<in>| sel) prev
            \<and> filter (\<lambda>f. docId f |\<notin>| sel) new = filter (\<lambda>f. docId f |\<notin>| sel) prev)"
proof -
  let ?S = "\<lambda>f. docId f |\<in>| sel"
  let ?N = "\<lambda>f. docId f |\<notin>| sel"
  have first: "mathMin (selectedIndices sel prev) = Some (int (length pre))"
    unfolding shape using unsel top by (rule first_selected_index)
  have preN: "filter ?N pre = pre" and preS: "filter ?S pre = []"
    using unsel by (simp_all add: filter_empty_conv)
  have top_case: "moveGroup sel Up prev = Inr prev" if "pre = []"
    using that first by (simp add: moveGroup_def)
  have up_case: "moveGroup sel Up prev =
      Inr (butlast pre @ filter ?S prev @ last pre # filter ?N rest)" if "pre \<noteq> []"
  proof -
    from that obtain pre' a where pre: "pre = pre' @ [a]"
      by (metis append_butlast_last_id)
    have above: "elemAt prev (int (length pre) - 1) = Some a"
      using elemAt_append_Cons [of pre' a "s # rest"] by (simp add: shape pre)
    have "?N a" and "filter ?N pre' = pre'"
      using unsel by (simp_all add: pre)
    then have unselected: "filter ?N prev = pre' @ a # filter ?N rest"
      using top by (simp add: shape pre)
    have "\<forall>y\<in>set pre'. docId y \<noteq> docId a"
      using dist by (auto simp: shape pre image_iff)
    then have idx: "findIndex (\<lambda>f. docId f = docId a) (filter ?N prev) = int (length pre')"
      by (simp add: unselected findIndex_first)
    have "snd (splice (int (length pre')) 0 (filter ?S prev) (filter ?N prev))
        = pre' @ filter ?S prev @ a # filter ?N rest"
      by (subst splice_insert) (simp_all add: unselected)
    then show ?thesis
      using first above idx that by (simp add: moveGroup_def pre Let_def)
  qed
  have order: "filter ?S new = filter ?S prev \<and> filter ?N new = filter ?N prev"
    if "moveGroup sel Up prev = Inr new" for new
  proof (cases "pre = []")
    case True
    with top_case that show ?thesis by simp
  next
    case False
    then obtain pre' a where pre: "pre = pre' @ [a]"
      by (metis append_butlast_last_id)
    from up_case [OF False] that
    have new: "new = pre' @ filter ?S prev @ a # filter ?N rest"
      by (simp add: pre)
    have "?N a" "\<forall>f\<in>set pre'. ?N f"
      using unsel by (simp_all add: pre)
    then have "filter ?S pre' = []" "filter ?N pre' = pre'"
      by (simp_all add: filter_empty_conv)
    then show ?thesis
      using \<open>?N a\<close> top by (simp add: new shape pre)
  qed
  show ?thesis
    using top_case up_case order by blast
qed

text \<open>The group branch of \<^verbatim>\<open>handleMove\<close> stores what the updater returns.\<close>

lemma handleMove_group:
  "ident |\<in>| selectedIds st \<Longrightarrow> 1 < fcard (selectedIds st)
   \<Longrightarrow> moveGroup (selectedIds st) dir (files st) = Inr new
   \<Longrightarrow> handleMove ident dir st = Inr (st\<lparr>files := new\<rparr>)"
  by (simp add: handleMove_def)

text \<open>
  C1, as the code has it. Let the ids of the list be pairwise distinct, and let the
  selection have more than one id, all of them ids of the list. Then the list has a
  topmost selected entry \<open>s\<close>, after the unselected entries \<open>pre\<close>. When \<open>pre\<close> is
  empty (the first selected index is 0) the group move up returns the list as it is.
  Otherwise the result is the entries of \<open>pre\<close> but the last, then all selected
  entries as one block in their order, then the last entry of \<open>pre\<close> (the entry that
  preceded \<open>s\<close>), then the remaining unselected entries in their order. The move
  always returns a list, in which the selected entries keep their order among
  themselves and so do the unselected ones, and \<^verbatim>\<open>handleMove\<close> called with a
  selected id stores that list.
\<close>


theorem moveGroup_up:
  assumes dist: "distinct (map docId prev)"
    and size: "1 < fcard sel"
    and live: "sel |\<subseteq>| fset_of_list (map docId prev)"
  shows "(\<exists>pre s rest. prev = pre @ s # rest \<and> (\<forall>f\<in>set pre. docId f |\<notin>| sel)
            \<and> docId s |\<in>| sel)
       \<and> (\<forall>pre s rest.
            prev = pre @ s # rest \<and> (\<forall>f\<in>set pre. docId f |\<notin>| sel) \<and> docId s |\<in>| sel \<longrightarrow>
              (pre = [] \<longrightarrow> moveGroup sel Up prev = Inr prev)
            \<and> (pre \<noteq> [] \<longrightarrow>
                 moveGroup sel Up prev =
                   Inr (butlast pre @ filter (\<lambda>f. docId f |\<in>| sel) prev
                        @ last pre # filter (\<lambda>f. docId f |\<notin>| sel) rest)))
       \<and> (\<exists>new. moveGroup sel Up prev = Inr new
            \<and> filter (\<lambda>f. docId f |\<in>| sel) new = filter (\<lambda>f. docId f |\<in>| sel) prev
            \<and> filter (\<lambda>f. docId f |\<notin>| sel) new = filter (\<lambda>f. docId f |\<notin>| sel) prev)
       \<and> (\<forall>st ident.
            files st = prev \<and> selectedIds st = sel \<and> ident |\<in>| sel \<longrightarrow>
              (\<exists>new. moveGroup sel Up prev = Inr new
                 \<and> handleMove ident Up st = Inr (st\<lparr>files := new\<rparr>)))"
proof -
  from size have "sel \<noteq> {||}"
    by (auto simp: fcard_fempty)
  from topmost_selected_exists [OF this live]
  obtain pre s rest where top: "prev = pre @ s # rest" "\<forall>f\<in>set pre. docId f |\<notin>| sel"
    "docId s |\<in>| sel"
    by blast
  note mg = moveGroup_up_shape [OF dist top]
  have "\<exists>new. moveGroup sel Up prev = Inr new"
  proof (cases "pre = []")
    case True
    with mg [THEN conjunct1] show ?thesis by blast
  next
    case False
    with mg [THEN conjunct2, THEN conjunct1] show ?thesis by blast
  qed
  then obtain new where new: "moveGroup sel Up prev = Inr new" ..
  from mg [THEN conjunct2, THEN conjunct2, rule_format, OF new] new
  have ex: "\<exists>new. moveGroup sel Up prev = Inr new
            \<and> filter (\<lambda>f. docId f |\<in>| sel) new = filter (\<lambda>f. docId f |\<in>| sel) prev
            \<and> filter (\<lambda>f. docId f |\<notin>| sel) new = filter (\<lambda>f. docId f |\<notin>| sel) prev"
    by (intro exI [of _ new]) (rule conjI)
  have all: "\<forall>pre s rest.
            prev = pre @ s # rest \<and> (\<forall>f\<in>set pre. docId f |\<notin>| sel) \<and> docId s |\<in>| sel \<longrightarrow>
              (pre = [] \<longrightarrow> moveGroup sel Up prev = Inr prev)
            \<and> (pre \<noteq> [] \<longrightarrow>
                 moveGroup sel Up prev =
                   Inr (butlast pre @ filter (\<lambda>f. docId f |\<in>| sel) prev
                        @ last pre # filter (\<lambda>f. docId f |\<notin>| sel) rest))"
  proof (intro allI impI)
    fix pre s rest
    assume a: "prev = pre @ s # rest \<and> (\<forall>f\<in>set pre. docId f |\<notin>| sel) \<and> docId s |\<in>| sel"
    then have "prev = pre @ s # rest" "\<forall>f\<in>set pre. docId f |\<notin>| sel" "docId s |\<in>| sel"
      by simp_all
    note m = moveGroup_up_shape [OF dist this]
    show "(pre = [] \<longrightarrow> moveGroup sel Up prev = Inr prev)
            \<and> (pre \<noteq> [] \<longrightarrow>
                 moveGroup sel Up prev =
                   Inr (butlast pre @ filter (\<lambda>f. docId f |\<in>| sel) prev
                        @ last pre # filter (\<lambda>f. docId f |\<notin>| sel) rest))"
      using m [THEN conjunct1] m [THEN conjunct2, THEN conjunct1] by (rule conjI)
  qed
  have hm: "\<forall>st ident.
            files st = prev \<and> selectedIds st = sel \<and> ident |\<in>| sel \<longrightarrow>
              (\<exists>new. moveGroup sel Up prev = Inr new
                 \<and> handleMove ident Up st = Inr (st\<lparr>files := new\<rparr>))"
  proof (intro allI impI)
    fix st :: state and ident
    assume "files st = prev \<and> selectedIds st = sel \<and> ident |\<in>| sel"
    then have "ident |\<in>| selectedIds st" "1 < fcard (selectedIds st)"
      "moveGroup (selectedIds st) Up (files st) = Inr new"
      using size new by simp_all
    then have "handleMove ident Up st = Inr (st\<lparr>files := new\<rparr>)"
      by (rule handleMove_group)
    with new show "\<exists>new. moveGroup sel Up prev = Inr new
                 \<and> handleMove ident Up st = Inr (st\<lparr>files := new\<rparr>)"
      by (intro exI [of _ new]) (rule conjI)
  qed
  from top have "\<exists>pre s rest. prev = pre @ s # rest \<and> (\<forall>f\<in>set pre. docId f |\<notin>| sel)
            \<and> docId s |\<in>| sel"
    by blast
  with all ex hm show ?thesis
    by (intro conjI)
qed

text \<open>Scenario 1: \<open>[B, A, C]\<close> with \<open>A\<close> and \<open>C\<close> selected becomes \<open>[A, C, B]\<close>.\<close>

theorem moveGroup_scenario1:
  "distinct (map docId [entry ''B'', entry ''A'', entry ''C''])
   \<and> 1 < fcard {|''A'', ''C''|}
   \<and> {|''A'', ''C''|} |\<subseteq>| fset_of_list (map docId [entry ''B'', entry ''A'', entry ''C''])
   \<and> moveGroup {|''A'', ''C''|} Up [entry ''B'', entry ''A'', entry ''C'']
     = Inr [entry ''A'', entry ''C'', entry ''B'']"
proof -
  have h: "distinct (map docId [entry ''B'', entry ''A'', entry ''C''])"
    "1 < fcard {|''A'', ''C''|}"
    "{|''A'', ''C''|} |\<subseteq>| fset_of_list (map docId [entry ''B'', entry ''A'', entry ''C''])"
    by (simp_all add: entry_def fcard_finsert_if)
  from moveGroup_up [OF h, THEN conjunct2, THEN conjunct1, rule_format,
      of "[entry ''B'']" "entry ''A''" "[entry ''C'']"]
  have "moveGroup {|''A'', ''C''|} Up [entry ''B'', entry ''A'', entry ''C'']
     = Inr [entry ''A'', entry ''C'', entry ''B'']"
    by (simp add: entry_def)
  with h show ?thesis by simp
qed

text \<open>
  Without distinct ids C1 fails: in \<open>[U, V, U', S1, S2]\<close>, where \<open>U'\<close> has the id of
  \<open>U\<close> and \<open>S1\<close>, \<open>S2\<close> are selected, the entry before the topmost selected one is
  \<open>U'\<close>, but the block is put before \<open>U\<close>, the first entry with that id.
\<close>

theorem moveGroup_up_duplicate_id:
  "1 < fcard {|''S1'', ''S2''|}
   \<and> {|''S1'', ''S2''|} |\<subseteq>| fset_of_list (map docId
         [entry ''U'', entry ''V'', (entry ''U'')\<lparr>docName := ''copy.pdf''\<rparr>,
          entry ''S1'', entry ''S2''])
   \<and> moveGroup {|''S1'', ''S2''|} Up
         [entry ''U'', entry ''V'', (entry ''U'')\<lparr>docName := ''copy.pdf''\<rparr>,
          entry ''S1'', entry ''S2'']
       = Inr [entry ''S1'', entry ''S2'', entry ''U'', entry ''V'',
              (entry ''U'')\<lparr>docName := ''copy.pdf''\<rparr>]
   \<and> moveGroup {|''S1'', ''S2''|} Up
         [entry ''U'', entry ''V'', (entry ''U'')\<lparr>docName := ''copy.pdf''\<rparr>,
          entry ''S1'', entry ''S2'']
       \<noteq> Inr [entry ''U'', entry ''V'', entry ''S1'', entry ''S2'',
               (entry ''U'')\<lparr>docName := ''copy.pdf''\<rparr>]"
  by (simp add: moveGroup_def selectedIndices_def elemAt_def splice_def spliceStart_def
      entry_def fcard_finsert_if Let_def)

section \<open>Dragging a group\<close>

text \<open>
  An id that is not selected and is the id of some entry is the id of a first entry
  among the unselected ones.
\<close>

lemma first_unselected_with_id_exists:
  assumes "overId |\<notin>| sel" and "overId \<in> set (map docId items)"
  shows "\<exists>pre target post.
           filter (\<lambda>f. docId f |\<notin>| sel) items = pre @ target # post
           \<and> docId target = overId \<and> (\<forall>f\<in>set pre. docId f \<noteq> overId)"
proof -
  from assms obtain f where "f \<in> set items" "docId f = overId" "docId f |\<notin>| sel"
    by auto
  then have "\<exists>x\<in>set (filter (\<lambda>f. docId f |\<notin>| sel) items). docId x = overId"
    by auto
  then obtain pre target post where
    "filter (\<lambda>f. docId f |\<notin>| sel) items = pre @ target # post" "docId target = overId"
    "\<forall>y\<in>set pre. \<not> docId y = overId"
    unfolding split_list_first_prop_iff by blast
  then show ?thesis by blast
qed

text \<open>
  The group drag onto the unselected entry \<open>target\<close>, the unselected entries being
  \<open>pre @ target # post\<close>.
\<close>

lemma handleDragEnd_group_shape:
  assumes active: "activeId |\<in>| selectedIds st" and size: "1 < fcard (selectedIds st)"
    and over: "overId |\<notin>| selectedIds st"
    and shape: "filter (\<lambda>f. docId f |\<notin>| selectedIds st) (files st) = pre @ target # post"
    and target: "docId target = overId" and first: "\<forall>f\<in>set pre. docId f \<noteq> overId"
  shows "handleDragEnd activeId (Some overId) st =
           Inr (st\<lparr>isDragging := False,
                   files :=
                     (if findIndex (\<lambda>f. docId f = activeId) (files st)
                           < findIndex (\<lambda>f. docId f = overId) (files st)
                      then pre @ target # filter (\<lambda>f. docId f |\<in>| selectedIds st) (files st) @ post
                      else pre @ filter (\<lambda>f. docId f |\<in>| selectedIds st) (files st)
                           @ target # post)\<rparr>)
       \<and> (\<forall>st'. handleDragEnd activeId (Some overId) st = Inr st' \<longrightarrow>
             filter (\<lambda>f. docId f |\<in>| selectedIds st) (files st')
               = filter (\<lambda>f. docId f |\<in>| selectedIds st) (files st)
             \<and> filter (\<lambda>f. docId f |\<notin>| selectedIds st) (files st')
               = filter (\<lambda>f. docId f |\<notin>| selectedIds st) (files st))"
proof -
  let ?S = "\<lambda>f. docId f |\<in>| selectedIds st"
  let ?N = "\<lambda>f. docId f |\<notin>| selectedIds st"
  let ?sel = "filter ?S (files st)"
  from active over have neq: "activeId \<noteq> overId" by auto
  have idx: "findIndex (\<lambda>f. docId f = overId) (filter ?N (files st)) = int (length pre)"
    using first target by (simp add: shape findIndex_first)
  have before: "snd (splice (int (length pre)) 0 ?sel (filter ?N (files st)))
      = pre @ ?sel @ target # post"
    by (subst splice_insert) (simp_all add: shape)
  have after: "snd (splice (int (length pre) + 1) 0 ?sel (filter ?N (files st)))
      = pre @ target # ?sel @ post"
    using splice_insert [of "Suc (length pre)" "filter ?N (files st)" ?sel]
    by (simp add: shape add.commute)
  have eq: "handleDragEnd activeId (Some overId) st =
           Inr (st\<lparr>isDragging := False,
                   files :=
                     (if findIndex (\<lambda>f. docId f = activeId) (files st)
                           < findIndex (\<lambda>f. docId f = overId) (files st)
                      then pre @ target # ?sel @ post else pre @ ?sel @ target # post)\<rparr>)"
    using neq active size over
    by (simp add: handleDragEnd_def dragGroup_def Let_def idx before after)
  have "set (filter ?N (files st)) \<subseteq> {f. ?N f}"
    by auto
  then have "set (pre @ target # post) \<subseteq> {f. ?N f}"
    by (simp only: shape)
  then have unsel: "\<forall>f\<in>set pre. ?N f" "?N target" "\<forall>f\<in>set post. ?N f"
    by auto
  then have fS: "filter ?S pre = []" "filter ?S post = []"
    and fN: "filter ?N pre = pre" "filter ?N post = post"
    by (simp_all add: filter_empty_conv)
  have keep: "filter ?S (pre @ target # ?sel @ post) = ?sel"
    "filter ?S (pre @ ?sel @ target # post) = ?sel"
    "filter ?N (pre @ target # ?sel @ post) = filter ?N (files st)"
    "filter ?N (pre @ ?sel @ target # post) = filter ?N (files st)"
    using unsel(2) by (simp_all add: fS fN shape)
  show ?thesis
    using eq keep by (auto split: if_splits)
qed

text \<open>
  C2. The dragged entry is selected, the selection has more than one id, and the drop
  target \<open>overId\<close> is the id of an unselected entry of the list. Then the unselected
  entries are \<open>pre @ target # post\<close> with \<open>target\<close> the entry of \<open>overId\<close>, and
  \<^verbatim>\<open>handleDragEnd\<close> puts the selected entries, as one block in their order, right
  after the target when the index of \<open>activeId\<close> in the list is less than the index of
  \<open>overId\<close>, and right before the target otherwise. The handler returns a state, in
  which the selected entries keep their order among themselves and so do the
  unselected ones.
\<close>

theorem handleDragEnd_group_onto_unselected:
  assumes active: "activeId |\<in>| selectedIds st" and size: "1 < fcard (selectedIds st)"
    and over: "overId |\<notin>| selectedIds st"
    and present: "overId \<in> set (map docId (files st))"
  shows "(\<exists>pre target post.
            filter (\<lambda>f. docId f |\<notin>| selectedIds st) (files st) = pre @ target # post
            \<and> docId target = overId \<and> (\<forall>f\<in>set pre. docId f \<noteq> overId))
       \<and> (\<forall>pre target post.
            filter (\<lambda>f. docId f |\<notin>| selectedIds st) (files st) = pre @ target # post
            \<and> docId target = overId \<and> (\<forall>f\<in>set pre. docId f \<noteq> overId) \<longrightarrow>
            handleDragEnd activeId (Some overId) st =
              Inr (st\<lparr>isDragging := False,
                      files :=
                        (if findIndex (\<lambda>f. docId f = activeId) (files st)
                              < findIndex (\<lambda>f. docId f = overId) (files st)
                         then pre @ target
                              # filter (\<lambda>f. docId f |\<in>| selectedIds st) (files st) @ post
                         else pre @ filter (\<lambda>f. docId f |\<in>| selectedIds st) (files st)
                              @ target # post)\<rparr>))
       \<and> (\<exists>st'. handleDragEnd activeId (Some overId) st = Inr st'
            \<and> filter (\<lambda>f. docId f |\<in>| selectedIds st) (files st')
                = filter (\<lambda>f. docId f |\<in>| selectedIds st) (files st)
            \<and> filter (\<lambda>f. docId f |\<notin>| selectedIds st) (files st')
                = filter (\<lambda>f. docId f |\<notin>| selectedIds st) (files st))"
proof -
  from first_unselected_with_id_exists [OF over present]
  obtain pre target post where
    shape: "filter (\<lambda>f. docId f |\<notin>| selectedIds st) (files st) = pre @ target # post"
    and target: "docId target = overId" and first: "\<forall>f\<in>set pre. docId f \<noteq> overId"
    by blast
  note dg = handleDragEnd_group_shape [OF active size over shape target first]
  from dg [THEN conjunct1] obtain st' where st': "handleDragEnd activeId (Some overId) st = Inr st'"
    by blast
  from dg [THEN conjunct2, rule_format, OF st'] st'
  have ex: "\<exists>st'. handleDragEnd activeId (Some overId) st = Inr st'
            \<and> filter (\<lambda>f. docId f |\<in>| selectedIds st) (files st')
                = filter (\<lambda>f. docId f |\<in>| selectedIds st) (files st)
            \<and> filter (\<lambda>f. docId f |\<notin>| selectedIds st) (files st')
                = filter (\<lambda>f. docId f |\<notin>| selectedIds st) (files st)"
    by (intro exI [of _ st']) (rule conjI)
  have all: "\<forall>pre target post.
            filter (\<lambda>f. docId f |\<notin>| selectedIds st) (files st) = pre @ target # post
            \<and> docId target = overId \<and> (\<forall>f\<in>set pre. docId f \<noteq> overId) \<longrightarrow>
            handleDragEnd activeId (Some overId) st =
              Inr (st\<lparr>isDragging := False,
                      files :=
                        (if findIndex (\<lambda>f. docId f = activeId) (files st)
                              < findIndex (\<lambda>f. docId f = overId) (files st)
                         then pre @ target
                              # filter (\<lambda>f. docId f |\<in>| selectedIds st) (files st) @ post
                         else pre @ filter (\<lambda>f. docId f |\<in>| selectedIds st) (files st)
                              @ target # post)\<rparr>)"
  proof (intro allI impI)
    fix pre target post
    assume "filter (\<lambda>f. docId f |\<notin>| selectedIds st) (files st) = pre @ target # post
            \<and> docId target = overId \<and> (\<forall>f\<in>set pre. docId f \<noteq> overId)"
    then have a: "filter (\<lambda>f. docId f |\<notin>| selectedIds st) (files st) = pre @ target # post"
      "docId target = overId" "\<forall>f\<in>set pre. docId f \<noteq> overId"
      by simp_all
    show "handleDragEnd activeId (Some overId) st =
              Inr (st\<lparr>isDragging := False,
                      files :=
                        (if findIndex (\<lambda>f. docId f = activeId) (files st)
                              < findIndex (\<lambda>f. docId f = overId) (files st)
                         then pre @ target
                              # filter (\<lambda>f. docId f |\<in>| selectedIds st) (files st) @ post
                         else pre @ filter (\<lambda>f. docId f |\<in>| selectedIds st) (files st)
                              @ target # post)\<rparr>)"
      by (rule handleDragEnd_group_shape [OF active size over a, THEN conjunct1])
  qed
  from shape target first
  have "\<exists>pre target post.
            filter (\<lambda>f. docId f |\<notin>| selectedIds st) (files st) = pre @ target # post
            \<and> docId target = overId \<and> (\<forall>f\<in>set pre. docId f \<noteq> overId)"
    by blast
  with all ex show ?thesis
    by (intro conjI)
qed

text \<open>A drag from above drops the group after the target, a drag from below before it.\<close>

theorem handleDragEnd_group_witness:
  "''A'' |\<in>| {|''A'', ''C''|} \<and> 1 < fcard {|''A'', ''C''|} \<and> ''D'' |\<notin>| {|''A'', ''C''|}
   \<and> ''D'' \<in> set (map docId [entry ''A'', entry ''B'', entry ''C'', entry ''D'', entry ''E''])
   \<and> handleDragEnd ''A'' (Some ''D'')
     (initialState\<lparr>files := [entry ''A'', entry ''B'', entry ''C'', entry ''D'', entry ''E''],
                    selectedIds := {|''A'', ''C''|}\<rparr>)
   = Inr (initialState\<lparr>files := [entry ''B'', entry ''D'', entry ''A'', entry ''C'', entry ''E''],
                         selectedIds := {|''A'', ''C''|}\<rparr>)
   \<and> handleDragEnd ''C'' (Some ''B'')
     (initialState\<lparr>files := [entry ''A'', entry ''B'', entry ''C'', entry ''D'', entry ''E''],
                    selectedIds := {|''A'', ''C''|}\<rparr>)
   = Inr (initialState\<lparr>files := [entry ''A'', entry ''C'', entry ''B'', entry ''D'', entry ''E''],
                         selectedIds := {|''A'', ''C''|}\<rparr>)"
proof -
  let ?st = "initialState\<lparr>files := [entry ''A'', entry ''B'', entry ''C'', entry ''D'', entry ''E''],
                    selectedIds := {|''A'', ''C''|}\<rparr>"
  have hA: "''A'' |\<in>| selectedIds ?st" "1 < fcard (selectedIds ?st)"
    "''D'' |\<notin>| selectedIds ?st" "''D'' \<in> set (map docId (files ?st))"
    by (simp_all add: entry_def fcard_finsert_if)
  have hC: "''C'' |\<in>| selectedIds ?st" "1 < fcard (selectedIds ?st)"
    "''B'' |\<notin>| selectedIds ?st" "''B'' \<in> set (map docId (files ?st))"
    by (simp_all add: entry_def fcard_finsert_if)
  have down: "handleDragEnd ''A'' (Some ''D'') ?st
      = Inr (initialState\<lparr>files := [entry ''B'', entry ''D'', entry ''A'', entry ''C'', entry ''E''],
                         selectedIds := {|''A'', ''C''|}\<rparr>)"
    using handleDragEnd_group_onto_unselected [OF hA, THEN conjunct2, THEN conjunct1, rule_format,
        of "[entry ''B'']" "entry ''D''" "[entry ''E'']"]
    by (simp add: entry_def initialState_def)
  have up: "handleDragEnd ''C'' (Some ''B'') ?st
      = Inr (initialState\<lparr>files := [entry ''A'', entry ''C'', entry ''B'', entry ''D'', entry ''E''],
                         selectedIds := {|''A'', ''C''|}\<rparr>)"
    using handleDragEnd_group_onto_unselected [OF hC, THEN conjunct2, THEN conjunct1, rule_format,
        of "[]" "entry ''B''" "[entry ''D'', entry ''E'']"]
    by (simp add: entry_def initialState_def)
  from hA down up show ?thesis
    by simp
qed

text \<open>
  Two different ids of entries of the list: the first entry with one of them comes
  before the first entry with the other, or the other way round.
\<close>

lemma first_of_two_ids:
  assumes a: "a \<in> set (map docId items)" and o: "b \<in> set (map docId items)" and neq: "a \<noteq> b"
  shows "(\<exists>pre x mid y post. items = pre @ x # mid @ y # post \<and> docId x = a \<and> docId y = b
            \<and> (\<forall>f\<in>set pre. docId f \<noteq> a \<and> docId f \<noteq> b) \<and> (\<forall>f\<in>set mid. docId f \<noteq> b))
       \<or> (\<exists>pre x mid y post. items = pre @ y # mid @ x # post \<and> docId x = a \<and> docId y = b
            \<and> (\<forall>f\<in>set pre. docId f \<noteq> a \<and> docId f \<noteq> b) \<and> (\<forall>f\<in>set mid. docId f \<noteq> a))"
proof -
  from a have "\<exists>f\<in>set items. docId f = a \<or> docId f = b"
    by auto
  then obtain pre z rest where items: "items = pre @ z # rest"
    and z: "docId z = a \<or> docId z = b"
    and pre: "\<forall>f\<in>set pre. \<not> (docId f = a \<or> docId f = b)"
    unfolding split_list_first_prop_iff by blast
  show ?thesis
  proof (cases "docId z = a")
    case True
    with o neq pre have "\<exists>f\<in>set rest. docId f = b"
      by (auto simp: items)
    then obtain mid y post where rest: "rest = mid @ y # post" and y: "docId y = b"
      and mid: "\<forall>f\<in>set mid. \<not> docId f = b"
      unfolding split_list_first_prop_iff by blast
    have "items = pre @ z # mid @ y # post \<and> docId z = a \<and> docId y = b
            \<and> (\<forall>f\<in>set pre. docId f \<noteq> a \<and> docId f \<noteq> b) \<and> (\<forall>f\<in>set mid. docId f \<noteq> b)"
      using items rest True y pre mid by simp
    then show ?thesis by blast
  next
    case False
    with z have zb: "docId z = b" by simp
    with a neq pre have "\<exists>f\<in>set rest. docId f = a"
      by (auto simp: items)
    then obtain mid x post where rest: "rest = mid @ x # post" and x: "docId x = a"
      and mid: "\<forall>f\<in>set mid. \<not> docId f = a"
      unfolding split_list_first_prop_iff by blast
    have "items = pre @ z # mid @ x # post \<and> docId x = a \<and> docId z = b
            \<and> (\<forall>f\<in>set pre. docId f \<noteq> a \<and> docId f \<noteq> b) \<and> (\<forall>f\<in>set mid. docId f \<noteq> a)"
      using items rest zb x pre mid by simp
    then show ?thesis by blast
  qed
qed

text \<open>
  The drag of a selected entry onto another selected entry, downwards and upwards;
  \<open>x\<close> and \<open>y\<close> are the first entries with the ids \<open>activeId\<close> and \<open>overId\<close>.
\<close>

lemma handleDragEnd_selected_down:
  assumes active: "activeId |\<in>| selectedIds st" and over: "overId |\<in>| selectedIds st"
    and size: "1 < fcard (selectedIds st)" and neq: "activeId \<noteq> overId"
    and shape: "files st = pre @ x # mid @ y # post"
    and ids: "docId x = activeId" "docId y = overId"
    and pre: "\<forall>f\<in>set pre. docId f \<noteq> activeId \<and> docId f \<noteq> overId"
    and mid: "\<forall>f\<in>set mid. docId f \<noteq> overId"
  shows "handleDragEnd activeId (Some overId) st =
           Inr (st\<lparr>isDragging := False, files := pre @ mid @ y # x # post\<rparr>)"
proof -
  have i: "findIndex (\<lambda>f. docId f = activeId) (files st) = int (length pre)"
    using pre by (simp add: shape findIndex_first ids)
  have "\<forall>f\<in>set (pre @ x # mid). docId f \<noteq> overId"
    using pre mid neq ids by auto
  then have j: "findIndex (\<lambda>f. docId f = overId) (files st) = int (length (pre @ x # mid))"
    using findIndex_first [of "pre @ x # mid" "\<lambda>f. docId f = overId" y post]
    by (simp add: shape ids)
  show ?thesis
    using neq active over size arrayMove_down [of pre x mid y post]
    by (simp add: handleDragEnd_def dragGroup_def Let_def i j) (simp add: shape)
qed

lemma handleDragEnd_selected_up:
  assumes active: "activeId |\<in>| selectedIds st" and over: "overId |\<in>| selectedIds st"
    and size: "1 < fcard (selectedIds st)" and neq: "activeId \<noteq> overId"
    and shape: "files st = pre @ y # mid @ x # post"
    and ids: "docId x = activeId" "docId y = overId"
    and pre: "\<forall>f\<in>set pre. docId f \<noteq> activeId \<and> docId f \<noteq> overId"
    and mid: "\<forall>f\<in>set mid. docId f \<noteq> activeId"
  shows "handleDragEnd activeId (Some overId) st =
           Inr (st\<lparr>isDragging := False, files := pre @ x # y # mid @ post\<rparr>)"
proof -
  have j: "findIndex (\<lambda>f. docId f = overId) (files st) = int (length pre)"
    using pre by (simp add: shape findIndex_first ids)
  have "\<forall>f\<in>set (pre @ y # mid). docId f \<noteq> activeId"
    using pre mid neq ids by auto
  then have i: "findIndex (\<lambda>f. docId f = activeId) (files st) = int (length (pre @ y # mid))"
    using findIndex_first [of "pre @ y # mid" "\<lambda>f. docId f = activeId" x post]
    by (simp add: shape ids)
  show ?thesis
    using neq active over size arrayMove_up [of pre y mid x post]
    by (simp add: handleDragEnd_def dragGroup_def Let_def i j) (simp add: shape)
qed

text \<open>
  C3, as the code has it. Both ids are selected, they differ, and both are ids of
  entries of the list; let \<open>x\<close> and \<open>y\<close> be the first entries with the ids
  \<open>activeId\<close> and \<open>overId\<close>. Then \<^verbatim>\<open>handleDragEnd\<close> makes the array move of the
  single item drag: \<open>x\<close> is taken out and put back at the index \<open>y\<close> had. Dragged
  downwards it lands right after \<open>y\<close>, dragged upwards right before \<open>y\<close>, and the
  entries \<open>mid\<close> between the two shift by one place; the entries before and after
  keep their index. The two entries exchange places when \<open>mid\<close> is empty.
\<close>

theorem handleDragEnd_onto_selected:
  assumes active: "activeId |\<in>| selectedIds st" and over: "overId |\<in>| selectedIds st"
    and size: "1 < fcard (selectedIds st)" and neq: "activeId \<noteq> overId"
    and present: "activeId \<in> set (map docId (files st))" "overId \<in> set (map docId (files st))"
  shows "((\<exists>pre x mid y post.
             files st = pre @ x # mid @ y # post \<and> docId x = activeId \<and> docId y = overId
             \<and> (\<forall>f\<in>set pre. docId f \<noteq> activeId \<and> docId f \<noteq> overId)
             \<and> (\<forall>f\<in>set mid. docId f \<noteq> overId))
          \<or> (\<exists>pre x mid y post.
             files st = pre @ y # mid @ x # post \<and> docId x = activeId \<and> docId y = overId
             \<and> (\<forall>f\<in>set pre. docId f \<noteq> activeId \<and> docId f \<noteq> overId)
             \<and> (\<forall>f\<in>set mid. docId f \<noteq> activeId)))
       \<and> (\<forall>pre x mid y post.
             files st = pre @ x # mid @ y # post \<and> docId x = activeId \<and> docId y = overId
             \<and> (\<forall>f\<in>set pre. docId f \<noteq> activeId \<and> docId f \<noteq> overId)
             \<and> (\<forall>f\<in>set mid. docId f \<noteq> overId) \<longrightarrow>
             handleDragEnd activeId (Some overId) st =
               Inr (st\<lparr>isDragging := False, files := pre @ mid @ y # x # post\<rparr>))
       \<and> (\<forall>pre x mid y post.
             files st = pre @ y # mid @ x # post \<and> docId x = activeId \<and> docId y = overId
             \<and> (\<forall>f\<in>set pre. docId f \<noteq> activeId \<and> docId f \<noteq> overId)
             \<and> (\<forall>f\<in>set mid. docId f \<noteq> activeId) \<longrightarrow>
             handleDragEnd activeId (Some overId) st =
               Inr (st\<lparr>isDragging := False, files := pre @ x # y # mid @ post\<rparr>))"
proof (intro conjI allI impI)
  show "(\<exists>pre x mid y post.
             files st = pre @ x # mid @ y # post \<and> docId x = activeId \<and> docId y = overId
             \<and> (\<forall>f\<in>set pre. docId f \<noteq> activeId \<and> docId f \<noteq> overId)
             \<and> (\<forall>f\<in>set mid. docId f \<noteq> overId))
          \<or> (\<exists>pre x mid y post.
             files st = pre @ y # mid @ x # post \<and> docId x = activeId \<and> docId y = overId
             \<and> (\<forall>f\<in>set pre. docId f \<noteq> activeId \<and> docId f \<noteq> overId)
             \<and> (\<forall>f\<in>set mid. docId f \<noteq> activeId))"
    by (rule first_of_two_ids [OF present neq])
next
  fix pre x mid y post
  assume "files st = pre @ x # mid @ y # post \<and> docId x = activeId \<and> docId y = overId
             \<and> (\<forall>f\<in>set pre. docId f \<noteq> activeId \<and> docId f \<noteq> overId)
             \<and> (\<forall>f\<in>set mid. docId f \<noteq> overId)"
  then have "files st = pre @ x # mid @ y # post" "docId x = activeId" "docId y = overId"
    "\<forall>f\<in>set pre. docId f \<noteq> activeId \<and> docId f \<noteq> overId" "\<forall>f\<in>set mid. docId f \<noteq> overId"
    by simp_all
  then show "handleDragEnd activeId (Some overId) st =
               Inr (st\<lparr>isDragging := False, files := pre @ mid @ y # x # post\<rparr>)"
    by (rule handleDragEnd_selected_down [OF active over size neq])
next
  fix pre x mid y post
  assume "files st = pre @ y # mid @ x # post \<and> docId x = activeId \<and> docId y = overId
             \<and> (\<forall>f\<in>set pre. docId f \<noteq> activeId \<and> docId f \<noteq> overId)
             \<and> (\<forall>f\<in>set mid. docId f \<noteq> activeId)"
  then have "files st = pre @ y # mid @ x # post" "docId x = activeId" "docId y = overId"
    "\<forall>f\<in>set pre. docId f \<noteq> activeId \<and> docId f \<noteq> overId" "\<forall>f\<in>set mid. docId f \<noteq> activeId"
    by simp_all
  then show "handleDragEnd activeId (Some overId) st =
               Inr (st\<lparr>isDragging := False, files := pre @ x # y # mid @ post\<rparr>)"
    by (rule handleDragEnd_selected_up [OF active over size neq])
qed

text \<open>
  A drag onto the entry below, a drag from the bottom to the top, and a drag in a list
  where the id of the target occurs twice.
\<close>

theorem handleDragEnd_onto_selected_witness:
  "handleDragEnd ''A'' (Some ''B'')
     (initialState\<lparr>files := [entry ''A'', entry ''B'', entry ''C''],
                    selectedIds := {|''A'', ''B''|}\<rparr>)
   = Inr (initialState\<lparr>files := [entry ''B'', entry ''A'', entry ''C''],
                         selectedIds := {|''A'', ''B''|}\<rparr>)
   \<and> handleDragEnd ''D'' (Some ''A'')
     (initialState\<lparr>files := [entry ''A'', entry ''B'', entry ''C'', entry ''D''],
                    selectedIds := {|''A'', ''D''|}\<rparr>)
   = Inr (initialState\<lparr>files := [entry ''D'', entry ''A'', entry ''B'', entry ''C''],
                         selectedIds := {|''A'', ''D''|}\<rparr>)
   \<and> handleDragEnd ''A'' (Some ''C'')
     (initialState\<lparr>files := [entry ''A'', entry ''B'', entry ''C'',
                              (entry ''C'')\<lparr>docName := ''copy.pdf''\<rparr>],
                    selectedIds := {|''A'', ''C''|}\<rparr>)
   = Inr (initialState\<lparr>files := [entry ''B'', entry ''C'', entry ''A'',
                                   (entry ''C'')\<lparr>docName := ''copy.pdf''\<rparr>],
                         selectedIds := {|''A'', ''C''|}\<rparr>)"
proof -
  let ?s1 = "initialState\<lparr>files := [entry ''A'', entry ''B'', entry ''C''],
                    selectedIds := {|''A'', ''B''|}\<rparr>"
  let ?s2 = "initialState\<lparr>files := [entry ''A'', entry ''B'', entry ''C'', entry ''D''],
                    selectedIds := {|''A'', ''D''|}\<rparr>"
  let ?s3 = "initialState\<lparr>files := [entry ''A'', entry ''B'', entry ''C'',
                              (entry ''C'')\<lparr>docName := ''copy.pdf''\<rparr>],
                    selectedIds := {|''A'', ''C''|}\<rparr>"
  have h1: "''A'' |\<in>| selectedIds ?s1" "''B'' |\<in>| selectedIds ?s1" "1 < fcard (selectedIds ?s1)"
    "''A'' \<noteq> ''B''" "''A'' \<in> set (map docId (files ?s1))" "''B'' \<in> set (map docId (files ?s1))"
    by (simp_all add: entry_def fcard_finsert_if)
  have h2: "''D'' |\<in>| selectedIds ?s2" "''A'' |\<in>| selectedIds ?s2" "1 < fcard (selectedIds ?s2)"
    "''D'' \<noteq> ''A''" "''D'' \<in> set (map docId (files ?s2))" "''A'' \<in> set (map docId (files ?s2))"
    by (simp_all add: entry_def fcard_finsert_if)
  have h3: "''A'' |\<in>| selectedIds ?s3" "''C'' |\<in>| selectedIds ?s3" "1 < fcard (selectedIds ?s3)"
    "''A'' \<noteq> ''C''" "''A'' \<in> set (map docId (files ?s3))" "''C'' \<in> set (map docId (files ?s3))"
    by (simp_all add: entry_def fcard_finsert_if)
  have r1: "handleDragEnd ''A'' (Some ''B'') ?s1
      = Inr (initialState\<lparr>files := [entry ''B'', entry ''A'', entry ''C''],
                         selectedIds := {|''A'', ''B''|}\<rparr>)"
    using handleDragEnd_onto_selected [OF h1, THEN conjunct2, THEN conjunct1, rule_format,
        of "[]" "entry ''A''" "[]" "entry ''B''" "[entry ''C'']"]
    by (simp add: entry_def initialState_def)
  have r2: "handleDragEnd ''D'' (Some ''A'') ?s2
      = Inr (initialState\<lparr>files := [entry ''D'', entry ''A'', entry ''B'', entry ''C''],
                         selectedIds := {|''A'', ''D''|}\<rparr>)"
    using handleDragEnd_onto_selected [OF h2, THEN conjunct2, THEN conjunct2, rule_format,
        of "[]" "entry ''A''" "[entry ''B'', entry ''C'']" "entry ''D''" "[]"]
    by (simp add: entry_def initialState_def)
  have r3: "handleDragEnd ''A'' (Some ''C'') ?s3
      = Inr (initialState\<lparr>files := [entry ''B'', entry ''C'', entry ''A'',
                                   (entry ''C'')\<lparr>docName := ''copy.pdf''\<rparr>],
                         selectedIds := {|''A'', ''C''|}\<rparr>)"
    using handleDragEnd_onto_selected [OF h3, THEN conjunct2, THEN conjunct1, rule_format,
        of "[]" "entry ''A''" "[entry ''B'']" "entry ''C''" "[(entry ''C'')\<lparr>docName := ''copy.pdf''\<rparr>]"]
    by (simp add: entry_def initialState_def)
  from r1 r2 r3 show ?thesis
    by simp
qed

text \<open>
  The move is not the index swap claimed for C3: in \<open>[A, B, C]\<close> with \<open>A\<close> and \<open>C\<close>
  selected, dragging \<open>A\<close> onto \<open>C\<close> gives \<open>[B, C, A]\<close>, where \<open>B\<close> has left its index,
  and not \<open>[C, B, A]\<close>.
\<close>

theorem handleDragEnd_onto_selected_not_swap:
  "handleDragEnd ''A'' (Some ''C'')
     (initialState\<lparr>files := [entry ''A'', entry ''B'', entry ''C''],
                    selectedIds := {|''A'', ''C''|}\<rparr>)
   = Inr (initialState\<lparr>files := [entry ''B'', entry ''C'', entry ''A''],
                         selectedIds := {|''A'', ''C''|}\<rparr>)
   \<and> handleDragEnd ''A'' (Some ''C'')
     (initialState\<lparr>files := [entry ''A'', entry ''B'', entry ''C''],
                    selectedIds := {|''A'', ''C''|}\<rparr>)
   \<noteq> Inr (initialState\<lparr>files := [entry ''C'', entry ''B'', entry ''A''],
                         selectedIds := {|''A'', ''C''|}\<rparr>)"
  by (simp add: handleDragEnd_def dragGroup_def arrayMove_def splice_def spliceStart_def
      entry_def initialState_def fcard_finsert_if Let_def)

section \<open>Distinct identifiers\<close>

text \<open>
  Every handler but the ingestion permutes the entries, changes their rotation or
  drops some of them: the ids it leaves are ids that were there, each as often at
  most.
\<close>

lemma splice_insert_mset: "mset (snd (splice k 0 items xs)) = mset xs + mset items"
proof -
  have "mset (take s xs @ items @ drop s xs) = mset (take s xs @ drop s xs) + mset items" for s
    by (simp del: append_take_drop_id)
  then show ?thesis
    by (simp add: splice_def Let_def del: mset_append)
qed

lemma partition_mset:
  "mset (filter (\<lambda>f. docId f |\<notin>| sel) xs) + mset (filter (\<lambda>f. docId f |\<in>| sel) xs) = mset xs"
  by (induction xs) auto

lemma moveGroup_mset: "moveGroup sel dir prev = Inr new \<Longrightarrow> mset new = mset prev"
  by (cases dir)
    (auto simp: moveGroup_def Let_def splice_insert_mset partition_mset
      split: option.splits if_splits)

lemma dragGroup_mset: "dragGroup sel a b items = Inr new \<Longrightarrow> mset new = mset items"
  by (auto simp: dragGroup_def Let_def splice_insert_mset partition_mset arrayMove_mset
      split: if_splits)

lemma dragSingle_mset: "dragSingle a b items = Inr new \<Longrightarrow> mset new = mset items"
  by (auto simp: dragSingle_def Let_def arrayMove_mset)

lemma handleDragEnd_mset:
  "handleDragEnd a over st = Inr st' \<Longrightarrow> mset (files st') = mset (files st) \<and> idCalls st' = idCalls st"
  by (auto simp: handleDragEnd_def Let_def dragGroup_mset dragSingle_mset
      split: option.splits if_splits sum.splits)

lemma handleMove_mset:
  "handleMove x dir st = Inr st' \<Longrightarrow> mset (files st') = mset (files st) \<and> idCalls st' = idCalls st"
  by (auto simp: handleMove_def moveSingle_def Let_def moveGroup_mset arrayMove_mset
      split: if_splits sum.splits)

lemma rotate_ids:
  "map docId (map (\<lambda>f. if P f then f\<lparr>rotation := r f\<rparr> else f) xs) = map docId xs"
  by (induction xs) auto

lemma handleMerge_files: "files (handleMerge e st) = files st \<and> idCalls (handleMerge e st) = idCalls st"
  by (simp add: handleMerge_def Let_def split: sum.splits)

lemma handle_ids_subset:
  assumes "handle e ev st = Inr st'" and "\<forall>fl. ev \<noteq> FilesSelected fl"
  shows "mset (map docId (files st')) \<subseteq># mset (map docId (files st)) \<and> idCalls st' = idCalls st"
proof (cases ev)
  case (FilesSelected fl)
  with assms(2) show ?thesis by simp
next
  case (DragEnd a over)
  with assms(1) handleDragEnd_mset [of a over st st'] show ?thesis
    by (metis handle.simps(3) mset_map subset_mset.order_refl)
next
  case (Move x dir)
  with assms(1) handleMove_mset [of x dir st st'] show ?thesis
    by (metis handle.simps(9) mset_map subset_mset.order_refl)
next
  case (Rotate x)
  with assms(1) have "map docId (files st') = map docId (files st) \<and> idCalls st' = idCalls st"
    by (auto simp: handleRotate_def rotate_ids)
  then show ?thesis
    by (simp del: mset_map)
next
  case BulkRotate
  with assms(1) have "map docId (files st') = map docId (files st) \<and> idCalls st' = idCalls st"
    by (auto simp: handleBulkRotate_def rotate_ids)
  then show ?thesis
    by (simp del: mset_map)
next
  case (Delete x)
  have "mset (filter (\<lambda>f. docId f \<noteq> x) (files st)) \<subseteq># mset (files st)"
    by simp
  then have "image_mset docId (mset (filter (\<lambda>f. docId f \<noteq> x) (files st)))
      \<subseteq># image_mset docId (mset (files st))"
    by (rule image_mset_subseteq_mono)
  with Delete assms(1) show ?thesis
    by (auto simp: handleDelete_def)
next
  case BulkDelete
  have "mset (filter (\<lambda>f. docId f |\<notin>| selectedIds st) (files st)) \<subseteq># mset (files st)"
    by simp
  then have "image_mset docId (mset (filter (\<lambda>f. docId f |\<notin>| selectedIds st) (files st)))
      \<subseteq># image_mset docId (mset (files st))"
    by (rule image_mset_subseteq_mono)
  with BulkDelete assms(1) show ?thesis
    by (auto simp: handleBulkDelete_def)
next
  case Merge
  with assms(1) show ?thesis
    by (auto simp: handleMerge_files)
qed (use assms(1) in \<open>auto simp: handleDragStart_def clearAll_def toggleSelection_def
      toggleSelectAll_def split: if_splits\<close>)


lemma newDocFiles_ids:
  "newDocFiles e fl i u = (news, i', u') \<Longrightarrow>
     map docId news = map (randomId e) [i..<i + length fl] \<and> i' = i + length fl"
proof (induction fl arbitrary: i u news i' u')
  case Nil
  then show ?case by simp
next
  case (Cons f fl)
  obtain url u1 where url: "(if startsWith (file_type f) ''image/''
      then (Some (objectURL e u), Suc u) else (None, u)) = (url, u1)"
    by (cases "startsWith (file_type f) ''image/''") auto
  obtain rest i2 u2 where rest: "newDocFiles e fl (Suc i) u1 = (rest, i2, u2)"
    by (cases "newDocFiles e fl (Suc i) u1") auto
  from Cons.IH [OF rest]
  have ih: "map docId rest = map (randomId e) [Suc i..<Suc i + length fl]" "i2 = Suc i + length fl"
    by simp_all
  from Cons.prems have "news = \<lparr>docId = randomId e i, fileOf = f, docName = file_name f,
      docSize = file_size f, docType = getFileType (file_name f), previewUrl = url,
      rotation = 0\<rparr> # rest" "i' = i2"
    by (simp_all add: Let_def url rest)
  moreover have "[i..<i + length (f # fl)] = i # [Suc i..<Suc i + length fl]"
    by (subst upt_rec) simp
  ultimately show ?case
    using ih by (simp del: upt_Suc)
qed

lemma handle_keeps_ids_distinct:
  assumes inj: "inj (randomId e)"
    and inv: "distinct (map docId (files st))"
      "set (map docId (files st)) \<subseteq> randomId e ` {..<idCalls st}"
    and step: "handle e ev st = Inr st'"
  shows "distinct (map docId (files st'))
       \<and> set (map docId (files st')) \<subseteq> randomId e ` {..<idCalls st'}"
proof (cases "\<exists>fl. ev = FilesSelected (Some fl)")
  case True
  then obtain fl where ev: "ev = FilesSelected (Some fl)" by blast
  obtain news i' u' where new: "newDocFiles e fl (idCalls st) (urlCalls st) = (news, i', u')"
    by (cases "newDocFiles e fl (idCalls st) (urlCalls st)") auto
  from newDocFiles_ids [OF new]
  have ids: "map docId news = map (randomId e) [idCalls st..<idCalls st + length fl]"
    and calls: "i' = idCalls st + length fl"
    by simp_all
  from step have st': "files st' = files st @ news" "idCalls st' = i'"
    by (auto simp: ev handleFilesSelected_def new)
  have fresh: "distinct (map docId news)"
    using inj by (simp add: ids distinct_map inj_on_def inj_def)
  have "set (map docId news) \<subseteq> randomId e ` {idCalls st..<idCalls st + length fl}"
    by (simp add: ids)
  moreover have "randomId e ` {idCalls st..<idCalls st + length fl} \<inter> randomId e ` {..<idCalls st} = {}"
    using inj by (fastforce simp: inj_def)
  ultimately have disjoint: "set (map docId (files st)) \<inter> set (map docId news) = {}"
    using inv(2) by blast
  have "set (map docId (files st @ news)) \<subseteq> randomId e ` {..<idCalls st + length fl}"
  proof -
    have "{idCalls st..<idCalls st + length fl} \<subseteq> {..<idCalls st + length fl}"
      and "{..<idCalls st} \<subseteq> {..<idCalls st + length fl}"
      by auto
    then show ?thesis
      using inv(2) \<open>set (map docId news) \<subseteq> _\<close>
      by (simp only: map_append set_append) (blast intro: image_mono [THEN subsetD])
  qed
  then show ?thesis
    using inv(1) fresh disjoint by (simp add: st' calls)
next
  case False
  show ?thesis
  proof (cases "ev = FilesSelected None")
    case True
    with step inv show ?thesis
      by (auto simp: handleFilesSelected_def)
  next
    case no: False
    with False have "\<forall>fl. ev \<noteq> FilesSelected fl"
      by (metis option.exhaust)
    from handle_ids_subset [OF step this]
    have sub: "mset (map docId (files st')) \<subseteq># mset (map docId (files st))"
      and calls: "idCalls st' = idCalls st"
      by simp_all
    have "count (mset (map docId (files st'))) a \<le> 1" for a
      using mset_subset_eq_count [OF sub, of a] inv(1)
      by (metis distinct_count_atmost_1 le_trans order_refl zero_le_one)
    then have "distinct (map docId (files st'))"
      by (metis distinct_count_atmost_1 le_neq_implies_less less_one nat_less_le
          count_eq_zero_iff set_mset_mset)
    moreover have "set (map docId (files st')) \<subseteq> set (map docId (files st))"
      using set_mset_mono [OF sub] by simp
    ultimately show ?thesis
      using inv(2) calls by auto
  qed
qed

lemma run_keeps_ids_distinct:
  assumes "inj (randomId e)"
  shows "distinct (map docId (files st))
     \<Longrightarrow> set (map docId (files st)) \<subseteq> randomId e ` {..<idCalls st}
     \<Longrightarrow> run e evs st = Inr st'
     \<Longrightarrow> distinct (map docId (files st'))"
proof (induction evs arbitrary: st)
  case Nil
  then show ?case by simp
next
  case (Cons ev evs)
  from Cons.prems(3) obtain st1 where step: "handle e ev st = Inr st1"
    and rest: "run e evs st1 = Inr st'"
    by (auto split: sum.splits)
  from handle_keeps_ids_distinct [OF assms Cons.prems(1,2) step]
  show ?case
    using Cons.IH rest by blast
qed

text \<open>
  C5, as the code has it. The ingestion takes each new id from \<^verbatim>\<open>generateId\<close> and
  compares it with nothing. When the generator never returns the same string twice,
  the ids of the list are pairwise distinct in every state that a run of the handlers
  reaches from the initial state.
\<close>

theorem reachable_ids_distinct:
  assumes "inj (randomId e)" and "run e evs initialState = Inr st"
  shows "distinct (map docId (files st))"
  using run_keeps_ids_distinct [OF assms(1) _ _ assms(2)]
  by (simp add: initialState_def)

theorem reachable_ids_distinct_witness:
  "inj (randomId sampleEnv)
   \<and> run sampleEnv [FilesSelected (Some [pngFile]), FilesSelected (Some [pngFile])] initialState
       = Inr (handleFilesSelected sampleEnv (Some [pngFile])
               (handleFilesSelected sampleEnv (Some [pngFile]) initialState))
   \<and> distinct (map docId (files (handleFilesSelected sampleEnv (Some [pngFile])
               (handleFilesSelected sampleEnv (Some [pngFile]) initialState))))"
proof -
  have i: "inj (randomId sampleEnv)"
    by (simp add: sampleEnv_def inj_def)
  have r: "run sampleEnv [FilesSelected (Some [pngFile]), FilesSelected (Some [pngFile])]
      initialState = Inr (handleFilesSelected sampleEnv (Some [pngFile])
               (handleFilesSelected sampleEnv (Some [pngFile]) initialState))"
    by simp
  show ?thesis
    using i r reachable_ids_distinct [OF i r] by simp
qed

text \<open>
  Without that condition C5 fails: when the generator returns the same string again,
  the second ingestion appends an entry whose id is already in the list.
\<close>

theorem append_collides:
  "run repeatingEnv [FilesSelected (Some [pngFile]), FilesSelected (Some [pngFile])]
     initialState
   = Inr (handleFilesSelected repeatingEnv (Some [pngFile])
           (handleFilesSelected repeatingEnv (Some [pngFile]) initialState))
   \<and> map docId (files (handleFilesSelected repeatingEnv (Some [pngFile])
           (handleFilesSelected repeatingEnv (Some [pngFile]) initialState)))
       = [''dup'', ''dup'']
   \<and> \<not> distinct (map docId (files (handleFilesSelected repeatingEnv (Some [pngFile])
           (handleFilesSelected repeatingEnv (Some [pngFile]) initialState))))"
  by (simp add: handleFilesSelected_def initialState_def repeatingEnv_def sampleEnv_def)

end
